theory Spec2Isabelle
  imports Complex_Main
begin

section \<open>Strings\<close>

text \<open>
  A Go string is a sequence of bytes and \<open>len\<close> counts bytes; it is modelled by
  \<^typ>\<open>string\<close>, whose characters are bytes. The functions of package \<open>strings\<close> that the
  program calls are written out on bytes, for every byte string, valid UTF-8 or not.
\<close>

definition HasSuffix :: "string \<Rightarrow> string \<Rightarrow> bool" where
  "HasSuffix s suffix =
     (length suffix \<le> length s \<and> drop (length s - length suffix) s = suffix)"

definition HasPrefix :: "string \<Rightarrow> string \<Rightarrow> bool" where
  "HasPrefix s prefix = (length prefix \<le> length s \<and> take (length prefix) s = prefix)"

fun Contains :: "string \<Rightarrow> string \<Rightarrow> bool" where
  "Contains [] substr = (substr = [])"
| "Contains (c # cs) substr = (HasPrefix (c # cs) substr \<or> Contains cs substr)"

text \<open>
  The UTF-8 encodings of the code points for which \<open>unicode.IsSpace\<close> holds: U+0009 to
  U+000D, U+0020, U+0085, U+00A0, U+1680, U+2000 to U+200A, U+2028, U+2029, U+202F, U+205F
  and U+3000. Each of them starts with a byte that is not a continuation byte, so Go's
  decoder, which steps over a whole rune or over one invalid byte, reads a space exactly
  where one of these encodings starts; and \<open>DecodeLastRuneInString\<close> reads a space exactly
  where one of them ends the string.
\<close>

definition spaceEncodings :: "string list" where
  "spaceEncodings =
     [[CHR 0x09], [CHR 0x0A], [CHR 0x0B], [CHR 0x0C], [CHR 0x0D], [CHR 0x20],
      [CHR 0xC2, CHR 0x85], [CHR 0xC2, CHR 0xA0], [CHR 0xE1, CHR 0x9A, CHR 0x80],
      [CHR 0xE2, CHR 0x80, CHR 0x80], [CHR 0xE2, CHR 0x80, CHR 0x81],
      [CHR 0xE2, CHR 0x80, CHR 0x82], [CHR 0xE2, CHR 0x80, CHR 0x83],
      [CHR 0xE2, CHR 0x80, CHR 0x84], [CHR 0xE2, CHR 0x80, CHR 0x85],
      [CHR 0xE2, CHR 0x80, CHR 0x86], [CHR 0xE2, CHR 0x80, CHR 0x87],
      [CHR 0xE2, CHR 0x80, CHR 0x88], [CHR 0xE2, CHR 0x80, CHR 0x89],
      [CHR 0xE2, CHR 0x80, CHR 0x8A], [CHR 0xE2, CHR 0x80, CHR 0xA8],
      [CHR 0xE2, CHR 0x80, CHR 0xA9], [CHR 0xE2, CHR 0x80, CHR 0xAF],
      [CHR 0xE2, CHR 0x81, CHR 0x9F], [CHR 0xE3, CHR 0x80, CHR 0x80]]"

text \<open>The number of bytes of the space that starts, or ends, the string; 0 when none does.\<close>

definition spaceWidth :: "string \<Rightarrow> nat" where
  "spaceWidth s = (case filter (HasPrefix s) spaceEncodings of [] \<Rightarrow> 0 | enc # _ \<Rightarrow> length enc)"

definition spaceWidthEnd :: "string \<Rightarrow> nat" where
  "spaceWidthEnd s = (case filter (HasSuffix s) spaceEncodings of [] \<Rightarrow> 0 | enc # _ \<Rightarrow> length enc)"

text \<open>\<open>strings.TrimSpace\<close>: the leading spaces are cut, then the trailing ones.\<close>

function trimLeft :: "string \<Rightarrow> string" where
  "trimLeft [] = []"
| "trimLeft (c # cs) =
     (if spaceWidth (c # cs) = 0 then c # cs
      else trimLeft (drop (spaceWidth (c # cs)) (c # cs)))"
  by pat_completeness auto
termination
  by (relation "measure length") auto

function trimRight :: "string \<Rightarrow> string" where
  "trimRight [] = []"
| "trimRight (c # cs) =
     (if spaceWidthEnd (c # cs) = 0 then c # cs
      else trimRight (take (length (c # cs) - spaceWidthEnd (c # cs)) (c # cs)))"
  by pat_completeness auto
termination
  by (relation "measure length") auto

definition TrimSpace :: "string \<Rightarrow> string" where
  "TrimSpace s = trimRight (trimLeft s)"

text \<open>
  \<open>strings.ToLower\<close>: a string of ASCII bytes has its letters \<open>A\<close> to \<open>Z\<close> lowered; any other
  string goes through \<open>strings.Map(unicode.ToLower, s)\<close>, which needs the case tables of
  Unicode and is the parameter \<open>mapLower\<close>.
\<close>

definition toLowerByte :: "char \<Rightarrow> char" where
  "toLowerByte c =
     (if (65::nat) \<le> of_char c \<and> of_char c \<le> (90::nat)
      then char_of (of_char c + (32::nat)) else c)"

definition isASCII :: "string \<Rightarrow> bool" where
  "isASCII s = list_all (\<lambda>c. (of_char c :: nat) < 128) s"

definition ToLower :: "(string \<Rightarrow> string) \<Rightarrow> string \<Rightarrow> string" where
  "ToLower mapLower s = (if isASCII s then map toLowerByte s else mapLower s)"

text \<open>\<open>strings.Fields\<close>: the maximal runs of bytes between spaces, in order.\<close>

function fieldsLoop :: "string \<Rightarrow> string \<Rightarrow> string list" where
  "fieldsLoop [] word = (if word = [] then [] else [word])"
| "fieldsLoop (c # cs) word =
     (if spaceWidth (c # cs) \<noteq> 0
      then (if word = [] then fieldsLoop (drop (spaceWidth (c # cs)) (c # cs)) []
            else word # fieldsLoop (drop (spaceWidth (c # cs)) (c # cs)) [])
      else fieldsLoop cs (word @ [c]))"
  by pat_completeness auto
termination
  by (relation "measure (\<lambda>(s, word). length s)") auto

definition Fields :: "string \<Rightarrow> string list" where
  "Fields s = fieldsLoop s []"

fun Join :: "string list \<Rightarrow> string \<Rightarrow> string" where
  "Join [] sep = []"
| "Join [x] sep = x"
| "Join (x # y # ys) sep = x @ sep @ Join (y # ys) sep"

text \<open>\<open>strings.ReplaceAll(s, old, "")\<close>: the non-overlapping occurrences of \<open>old\<close> are
  removed from left to right; an empty \<open>old\<close> leaves \<open>s\<close> as it is.\<close>

function removeAll :: "string \<Rightarrow> string \<Rightarrow> string" where
  "removeAll [] old = []"
| "removeAll (c # cs) old =
     (if old \<noteq> [] \<and> HasPrefix (c # cs) old
      then removeAll (drop (length old) (c # cs)) old
      else c # removeAll cs old)"
  by pat_completeness auto
termination
  by (relation "measure (\<lambda>(s, old). length s)") (auto simp: HasPrefix_def)

section \<open>Documents\<close>

text \<open>The values a crawl stores under a metadata key (\<open>map[string]interface{}\<close>).\<close>

datatype meta_value = MInt int | MString string | MTime int

record Document =
  ID :: string
  URL :: string
  Title :: string
  Content :: string
  Metadata :: "(string \<times> meta_value) list"

record ProcessedDocument =
  Document :: Document
  Chunks :: "string list"
  Embedding :: "real list list"

text \<open>A run of the program either panics or returns normally.\<close>

datatype panic = SliceBoundsOutOfRange

section \<open>The environment\<close>

text \<open>
  The fields of Go's \<open>url.URL\<close> that the program reads, and the components that
  \<open>String\<close> renders. \<open>IsAbs\<close> is Go's definition: the scheme is not empty.
\<close>

record ParsedURL =
  Scheme :: string
  Host :: string
  Path :: string
  RawQuery :: string
  Fragment :: string

definition IsAbs :: "ParsedURL \<Rightarrow> bool" where
  "IsAbs u = (Scheme u \<noteq> [])"

text \<open>
  A parsed HTML document as the crawler queries it through goquery: \<open>Find\<close> gives, for a
  selector, the text of every matching node in document order (\<open>Length\<close> is their number,
  \<open>Text\<close> their concatenation); \<open>anchors\<close> gives, for every element matching \<open>a[href]\<close> in
  document order, what \<open>Attr("href")\<close> returns (\<open>None\<close> when the attribute does not exist).
\<close>

record html_document =
  Find :: "string \<Rightarrow> string list"
  anchors :: "string option list"

text \<open>An HTTP response; \<open>Body\<close> is \<open>None\<close> when \<open>goquery.NewDocumentFromReader\<close> fails on it.\<close>

record response =
  StatusCode :: int
  ContentType :: string
  LastModified :: string
  Body :: "html_document option"

text \<open>
  The standard library, the rate limiter, the network and the clock are parameters of the
  model. The natural number that \<open>limiter_Wait\<close>, \<open>client_Get\<close> and \<open>time_Now\<close> take is the
  number of URLs the scraper has admitted before, so that their answers may change from one
  request to the next. \<open>limiter_Wait\<close> is \<open>True\<close> when \<open>Wait\<close> returns \<open>nil\<close>; \<open>client_Get\<close> is
  \<open>None\<close> when \<open>Get\<close> returns an error. \<open>unicode_ToLower\<close> is what
  \<open>strings.Map(unicode.ToLower, s)\<close> returns.
\<close>

record world =
  unicode_ToLower :: "string \<Rightarrow> string"
  url_Parse :: "string \<Rightarrow> ParsedURL option"
  url_ResolveReference :: "ParsedURL \<Rightarrow> ParsedURL \<Rightarrow> ParsedURL"
  url_String :: "ParsedURL \<Rightarrow> string"
  limiter_Wait :: "nat \<Rightarrow> bool"
  client_Get :: "nat \<Rightarrow> string \<Rightarrow> response option"
  time_Now :: "nat \<Rightarrow> int"

section \<open>Package processor\<close>

record ProcessorConfig =
  ChunkSize :: int
  ChunkOverlap :: int
  MinChunkLength :: int
  RemoveStopwords :: bool
  CustomStopwords :: "string list"
  PreserveLineBreaks :: bool

record Processor =
  config :: ProcessorConfig

definition processor_NewWithConfig :: "ProcessorConfig \<Rightarrow> Processor" where
  "processor_NewWithConfig cfg =
     (let c1 = (if ChunkSize cfg = 0 then cfg\<lparr>ChunkSize := 1000\<rparr> else cfg);
          c2 = (if ChunkOverlap c1 = 0 then c1\<lparr>ChunkOverlap := 200\<rparr> else c1);
          c3 = (if MinChunkLength c2 = 0 then c2\<lparr>MinChunkLength := 100\<rparr> else c2)
      in \<lparr>config = c3\<rparr>)"

definition getStopwords :: "string list" where
  "getStopwords =
     [''a'', ''an'', ''and'', ''are'', ''as'', ''at'', ''be'', ''by'', ''for'',
      ''from'', ''has'', ''he'', ''in'', ''is'', ''it'', ''its'', ''of'', ''on'',
      ''that'', ''the'', ''to'', ''was'', ''were'', ''will'', ''with'']"

definition contains :: "string list \<Rightarrow> string \<Rightarrow> bool" where
  "contains slice item = list_ex (\<lambda>s. s = item) slice"

definition removeStopwords :: "Processor \<Rightarrow> string \<Rightarrow> string" where
  "removeStopwords p text =
     (let words = Fields text;
          stopwords = (if length (CustomStopwords (config p)) > 0
                       then getStopwords @ CustomStopwords (config p) else getStopwords)
      in Join (filter (\<lambda>word. \<not> contains stopwords word) words) '' '')"

definition cleanText :: "world \<Rightarrow> Processor \<Rightarrow> string \<Rightarrow> string" where
  "cleanText w p text =
     (let t1 = (if \<not> PreserveLineBreaks (config p) then ToLower (unicode_ToLower w) text
                else text);
          t2 = Join (Fields t1) '' '';
          t3 = (if RemoveStopwords (config p) then removeStopwords p t2 else t2)
      in TrimSpace t3)"

definition sentenceEnders :: "string list" where
  "sentenceEnders =
     [''. '', ''! '', ''? '', [CHR ''.'', CHR 0x0A], [CHR ''!'', CHR 0x0A], [CHR ''?'', CHR 0x0A]]"

text \<open>The loop of \<open>splitIntoSentences\<close> over the bytes of the text; its state is the
  builder \<open>current\<close> and the slice \<open>sentences\<close>.\<close>

fun sentenceLoop :: "string \<Rightarrow> string \<Rightarrow> string list \<Rightarrow> string \<times> string list" where
  "sentenceLoop [] current sentences = (current, sentences)"
| "sentenceLoop (b # bs) current sentences =
     (let current' = current @ [b]
      in if list_ex (HasSuffix current') sentenceEnders
         then sentenceLoop bs [] (sentences @ [TrimSpace current'])
         else sentenceLoop bs current' sentences)"

definition splitIntoSentences :: "string \<Rightarrow> string list" where
  "splitIntoSentences text =
     (case sentenceLoop text [] [] of
        (current, sentences) \<Rightarrow>
          if length current > 0 then sentences @ [TrimSpace current] else sentences)"

text \<open>The slice expression \<open>text[n:]\<close>, which panics outside \<open>0 \<le> n \<le> len(text)\<close>.\<close>

definition sliceFrom :: "string \<Rightarrow> int \<Rightarrow> panic + string" where
  "sliceFrom text n =
     (if n < 0 \<or> int (length text) < n then Inl SliceBoundsOutOfRange
      else Inr (drop (nat n) text))"

text \<open>The loop of \<open>splitIntoChunks\<close> over the sentences; its state is the builder
  \<open>currentChunk\<close> and the slice \<open>chunks\<close>.\<close>

fun chunkLoop ::
  "ProcessorConfig \<Rightarrow> string list \<Rightarrow> string \<Rightarrow> string list \<Rightarrow> panic + (string \<times> string list)"
where
  "chunkLoop cfg [] currentChunk chunks = Inr (currentChunk, chunks)"
| "chunkLoop cfg (sentence # rest) currentChunk chunks =
     (if int (length currentChunk) + int (length sentence) > ChunkSize cfg
      then
        (let chunks' = (if int (length currentChunk) \<ge> MinChunkLength cfg
                        then chunks @ [currentChunk] else chunks)
         in if ChunkOverlap cfg > 0 \<and> int (length currentChunk) > ChunkOverlap cfg
            then
              (case sliceFrom currentChunk (int (length currentChunk) - ChunkOverlap cfg) of
                 Inl e \<Rightarrow> Inl e
               | Inr lastPart \<Rightarrow> chunkLoop cfg rest (lastPart @ sentence @ '' '') chunks')
            else chunkLoop cfg rest ([] @ sentence @ '' '') chunks')
      else chunkLoop cfg rest (currentChunk @ sentence @ '' '') chunks)"

definition splitIntoChunks :: "Processor \<Rightarrow> string \<Rightarrow> panic + string list" where
  "splitIntoChunks p text =
     (case chunkLoop (config p) (splitIntoSentences text) [] [] of
        Inl e \<Rightarrow> Inl e
      | Inr (currentChunk, chunks) \<Rightarrow>
          if int (length currentChunk) \<ge> MinChunkLength (config p)
          then Inr (chunks @ [TrimSpace currentChunk])
          else Inr chunks)"

text \<open>\<open>Process\<close> returns the pair of the processed documents and an error value
  (\<open>None\<close> is \<open>nil\<close>), unless it panics.\<close>

fun processLoop ::
  "world \<Rightarrow> Processor \<Rightarrow> Document list \<Rightarrow> ProcessedDocument list
     \<Rightarrow> panic + ProcessedDocument list"
where
  "processLoop w p [] processed = Inr processed"
| "processLoop w p (doc # docs) processed =
     (let cleanContent = cleanText w p (Content doc)
      in case splitIntoChunks p cleanContent of
           Inl e \<Rightarrow> Inl e
         | Inr chunks \<Rightarrow>
             processLoop w p docs
               (processed @ [\<lparr>Document = doc, Chunks = chunks, Embedding = []\<rparr>]))"

definition Process ::
  "world \<Rightarrow> Processor \<Rightarrow> Document list
     \<Rightarrow> panic + (ProcessedDocument list \<times> string option)" where
  "Process w p docs =
     (case processLoop w p docs [] of Inl e \<Rightarrow> Inl e | Inr processed \<Rightarrow> Inr (processed, None))"

section \<open>Package config\<close>

record LLMSection =
  llm_BaseURL :: string
  llm_Model :: string
  llm_MaxTokens :: int
  llm_Temperature :: real

record DatabaseSection =
  db_URL :: string
  db_TableName :: string
  db_VectorDim :: int
  db_BatchSize :: int

record ScraperSection =
  sc_MaxDepth :: int
  sc_RateLimit :: real
  sc_IgnorePatterns :: "string list"
  sc_AllowedExtensions :: "string list"

record ProcessorSection =
  pr_ChunkSize :: int
  pr_ChunkOverlap :: int
  pr_RemoveStopwords :: bool

record UISection =
  ui_Streaming :: bool
  ui_Theme :: string

record Config =
  LLM :: LLMSection
  Database :: DatabaseSection
  Scraper :: ScraperSection
  Processor :: ProcessorSection
  UI :: UISection

record ValidationError =
  Field :: string
  Message :: string

text \<open>\<open>Validate\<close> appends one error for every check that fails, in the order of the checks.\<close>

definition Validate :: "world \<Rightarrow> Config \<Rightarrow> ValidationError list" where
  "Validate w c =
     (if llm_BaseURL (LLM c) = [] then
        [\<lparr>Field = ''llm.base_url'', Message = ''Ollama base URL is required''\<rparr>] else [])
     @ (if llm_MaxTokens (LLM c) < 1 \<or> llm_MaxTokens (LLM c) > 4096 then
        [\<lparr>Field = ''llm.max_tokens'', Message = ''max_tokens must be between 1 and 4096''\<rparr>]
        else [])
     @ (if llm_Temperature (LLM c) < 0 \<or> llm_Temperature (LLM c) > 2 then
        [\<lparr>Field = ''llm.temperature'', Message = ''temperature must be between 0 and 2''\<rparr>]
        else [])
     @ (if db_URL (Database c) \<noteq> [] \<and> url_Parse w (db_URL (Database c)) = None then
        [\<lparr>Field = ''database.url'', Message = ''invalid database URL''\<rparr>] else [])
     @ (if db_VectorDim (Database c) < 1 then
        [\<lparr>Field = ''database.vector_dim'', Message = ''vector_dim must be positive''\<rparr>] else [])
     @ (if db_BatchSize (Database c) < 1 then
        [\<lparr>Field = ''database.batch_size'', Message = ''batch_size must be positive''\<rparr>] else [])
     @ (if sc_MaxDepth (Scraper c) < 1 then
        [\<lparr>Field = ''scraper.max_depth'', Message = ''max_depth must be positive''\<rparr>] else [])
     @ (if sc_RateLimit (Scraper c) \<le> 0 then
        [\<lparr>Field = ''scraper.rate_limit'', Message = ''rate_limit must be positive''\<rparr>] else [])
     @ concat (map (\<lambda>ext.
          if \<not> HasPrefix ext ''.'' \<and> ext \<noteq> [] \<and> ext \<noteq> ''/'' then
            [\<lparr>Field = ''scraper.allowed_extensions'',
              Message = ''invalid extension format: '' @ ext\<rparr>]
          else []) (sc_AllowedExtensions (Scraper c)))
     @ (if pr_ChunkSize (Processor c) < 1 then
        [\<lparr>Field = ''processor.chunk_size'', Message = ''chunk_size must be positive''\<rparr>] else [])
     @ (if pr_ChunkOverlap (Processor c) < 0
           \<or> pr_ChunkOverlap (Processor c) \<ge> pr_ChunkSize (Processor c) then
        [\<lparr>Field = ''processor.chunk_overlap'',
          Message = ''chunk_overlap must be non-negative and less than chunk_size''\<rparr>] else [])
     @ (if url_Parse w (llm_BaseURL (LLM c)) = None then
        [\<lparr>Field = ''llm.base_url'', Message = ''invalid Ollama base URL''\<rparr>] else [])"

section \<open>Package scraper\<close>

text \<open>\<open>Timeout\<close> is a \<open>time.Duration\<close>, a number of nanoseconds; \<open>OnProgress\<close> says whether
  the callback is set, and the calls made to it are recorded in the scraper's \<open>progress\<close>.
  \<open>RateLimit\<close> is a \<open>float64\<close>, of which the program only asks whether it is 0 or at most
  0; it is a real number here.\<close>

record ScraperConfig =
  BaseURL :: string
  MaxDepth :: int
  RateLimit :: real
  IgnorePatterns :: "string list"
  AllowedExtensions :: "string list"
  Timeout :: int
  OnProgress :: bool

text \<open>
  The fields of \<open>Scraper\<close> that are set once by the constructor: \<open>client\<close> is the timeout of
  the HTTP client, \<open>limiter\<close> the rate and the burst the limiter was made with. The field
  \<open>visited\<close> of the source is a reference to a map; the struct keeps the reference, and the
  content of the map is in \<open>scraper_state\<close>, which every method of the scraper takes and
  returns.
\<close>

record Scraper =
  scraper_config :: ScraperConfig
  client :: int
  limiter :: "real \<times> int"
  baseHost :: string

text \<open>
  \<open>visited\<close> is the set of keys that the map \<open>s.visited\<close> holds with value \<open>true\<close>. The other
  three fields are not in the source and record what the scraper has done: \<open>admitted\<close> counts
  the URLs marked as visited, \<open>progress\<close> lists the arguments of the calls of \<open>OnProgress\<close>,
  \<open>fetched\<close> the arguments of the calls of \<open>client.Get\<close>, in order.
\<close>

record scraper_state =
  visited :: "string set"
  admitted :: nat
  progress :: "string list"
  fetched :: "string list"

datatype scrape_error =
  URLParseError | LimiterError | GetError | StatusError int string | DocumentReadError

definition scraper_NewWithConfig ::
  "world \<Rightarrow> ScraperConfig \<Rightarrow> scrape_error + Scraper \<times> scraper_state" where
  "scraper_NewWithConfig w cfg =
     (let c1 = (if Timeout cfg = 0 then cfg\<lparr>Timeout := 30 * 1000000000\<rparr> else cfg);
          c2 = (if MaxDepth c1 = 0 then c1\<lparr>MaxDepth := 3\<rparr> else c1);
          c3 = (if RateLimit c2 = 0 then c2\<lparr>RateLimit := 2\<rparr> else c2);
          c4 = (if length (AllowedExtensions c3) = 0
                then c3\<lparr>AllowedExtensions := [''.html'', ''.htm'', ''/'', []]\<rparr> else c3)
      in case url_Parse w (BaseURL c4) of
           None \<Rightarrow> Inl URLParseError
         | Some parsedURL \<Rightarrow>
             Inr (\<lparr>scraper_config = c4, client = Timeout c4,
                   limiter = (RateLimit c4, 1), baseHost = Host parsedURL\<rparr>,
                  \<lparr>visited = {}, admitted = 0, progress = [], fetched = []\<rparr>))"

definition shouldProcessURL :: "world \<Rightarrow> Scraper \<Rightarrow> string \<Rightarrow> bool" where
  "shouldProcessURL w s urlStr =
     (case url_Parse w urlStr of
        None \<Rightarrow> False
      | Some parsedURL \<Rightarrow>
          if Host parsedURL \<noteq> baseHost s then False
          else
            let ext = ToLower (unicode_ToLower w) (Path parsedURL);
                validExt = list_ex (\<lambda>allowedExt. HasSuffix ext allowedExt)
                             (AllowedExtensions (scraper_config s))
            in if \<not> validExt then False
               else if list_ex (\<lambda>pattern. Contains urlStr pattern)
                         (IgnorePatterns (scraper_config s)) then False
               else True)"

definition noisePatterns :: "string list" where
  "noisePatterns = [''Cookie Policy'', ''Accept Cookies'', ''Privacy Policy'', ''Terms of Service'']"

definition cleanContent :: "string \<Rightarrow> string" where
  "cleanContent content =
     TrimSpace (fold (\<lambda>pattern c. removeAll c pattern) noisePatterns (Join (Fields content) '' ''))"

definition selectors :: "string list" where
  "selectors = [''main'', ''article'', ''.content'', ''#content'', ''.documentation'', ''#documentation'']"

fun firstSelected :: "html_document \<Rightarrow> string list \<Rightarrow> string" where
  "firstSelected doc [] = []"
| "firstSelected doc (selector # rest) =
     (if length (Find doc selector) > 0 then concat (Find doc selector)
      else firstSelected doc rest)"

definition extractMainContent :: "html_document \<Rightarrow> string" where
  "extractMainContent doc =
     (let content = firstSelected doc selectors;
          content' = (if content = [] then concat (Find doc ''body'') else content)
      in cleanContent content')"

text \<open>What the link callback of \<open>scrapeRecursive\<close> passes to the recursive call for one
  anchor of the page at \<open>urlStr\<close>, or \<open>None\<close> when it returns before the call.\<close>

definition absoluteLink :: "world \<Rightarrow> string \<Rightarrow> string option \<Rightarrow> string option" where
  "absoluteLink w urlStr attr =
     (case attr of
        None \<Rightarrow> None
      | Some href \<Rightarrow>
          (case url_Parse w href of
             None \<Rightarrow> None
           | Some absoluteURL \<Rightarrow>
               if \<not> IsAbs absoluteURL then
                 (case url_Parse w urlStr of
                    None \<Rightarrow> None
                  | Some base \<Rightarrow> Some (url_String w (url_ResolveReference w base absoluteURL)))
               else Some (url_String w absoluteURL)))"

definition newDocument ::
  "world \<Rightarrow> nat \<Rightarrow> string \<Rightarrow> int \<Rightarrow> response \<Rightarrow> html_document \<Rightarrow> Document" where
  "newDocument w k urlStr depth resp doc =
     \<lparr>ID = [], URL = urlStr, Title = concat (Find doc ''title''),
      Content = extractMainContent doc,
      Metadata = [(''depth'', MInt depth), (''time'', MTime (time_Now w k)),
                  (''contentType'', MString (ContentType resp)),
                  (''lastModified'', MString (LastModified resp))]\<rparr>"

text \<open>
  \<open>scrapeRecursive\<close> works on the state of the scraper and on the slice \<open>documents\<close> and
  returns its error with both. The depth is a Go \<open>int\<close>; \<open>depth + 1\<close> would wrap only after
  \<open>2^63\<close> nested calls, so it is an unbounded integer here. An error of a recursive call is
  logged and dropped.
\<close>

function scrapeRecursive ::
  "world \<Rightarrow> Scraper \<Rightarrow> string \<Rightarrow> int \<Rightarrow> scraper_state \<times> Document list
     \<Rightarrow> scrape_error option \<times> scraper_state \<times> Document list"
where
  "scrapeRecursive w s urlStr depth (h, documents) =
     (if depth > MaxDepth (scraper_config s) \<or> urlStr \<in> visited h then (None, h, documents)
      else if \<not> shouldProcessURL w s urlStr then (None, h, documents)
      else
        let k = admitted h;
            h1 = h\<lparr>visited := insert urlStr (visited h), admitted := Suc k,
                   progress := (if OnProgress (scraper_config s)
                                then progress h @ [urlStr] else progress h)\<rparr>
        in if \<not> limiter_Wait w k then (Some LimiterError, h1, documents)
           else
             let h2 = h1\<lparr>fetched := fetched h1 @ [urlStr]\<rparr>
             in case client_Get w k urlStr of
                  None \<Rightarrow> (Some GetError, h2, documents)
                | Some resp \<Rightarrow>
                    if StatusCode resp \<noteq> 200
                    then (Some (StatusError (StatusCode resp) urlStr), h2, documents)
                    else
                      (case Body resp of
                         None \<Rightarrow> (Some DocumentReadError, h2, documents)
                       | Some doc \<Rightarrow>
                           (None,
                            fold (\<lambda>attr st.
                                    case absoluteLink w urlStr attr of
                                      None \<Rightarrow> st
                                    | Some absoluteURL \<Rightarrow>
                                        snd (scrapeRecursive w s absoluteURL (depth + 1) st))
                              (anchors doc)
                              (h2, documents @ [newDocument w k urlStr depth resp doc]))))"
  by pat_completeness auto
termination
  by (relation "measure (\<lambda>(w, s, urlStr, depth, st).
                   nat (MaxDepth (scraper_config s) + 1 - depth))") auto

definition Scrape ::
  "world \<Rightarrow> Scraper \<Rightarrow> string \<Rightarrow> scraper_state
     \<Rightarrow> Document list \<times> scrape_error option \<times> scraper_state" where
  "Scrape w s url h =
     (case scrapeRecursive w s url 0 (h, []) of (err, h', documents) \<Rightarrow> (documents, err, h'))"

section \<open>Package store\<close>

text \<open>
  The width of the UTF-8 encoding that starts the bytes, as Go's decoder accepts it (no
  overlong forms, no surrogates, nothing above U+10FFFF), or 0 when the first byte does not
  start a valid encoding: there \<open>range\<close> and \<open>DecodeRuneInString\<close> give \<open>RuneError\<close> with
  width 1.
\<close>

definition byteIn :: "nat \<Rightarrow> nat \<Rightarrow> char \<Rightarrow> bool" where
  "byteIn lo hi c = (lo \<le> of_char c \<and> of_char c \<le> hi)"

fun runeWidth :: "string \<Rightarrow> nat" where
  "runeWidth [] = 0"
| "runeWidth (b0 # rest) =
     (let x = (of_char b0 :: nat)
      in if x < 0x80 then 1
         else if 0xC2 \<le> x \<and> x \<le> 0xDF then
           (case rest of
              b1 # _ \<Rightarrow> if byteIn 0x80 0xBF b1 then 2 else 0
            | _ \<Rightarrow> 0)
         else if 0xE0 \<le> x \<and> x \<le> 0xEF then
           (case rest of
              b1 # b2 # _ \<Rightarrow>
                if byteIn (if x = 0xE0 then 0xA0 else 0x80) (if x = 0xED then 0x9F else 0xBF) b1
                   \<and> byteIn 0x80 0xBF b2 then 3 else 0
            | _ \<Rightarrow> 0)
         else if 0xF0 \<le> x \<and> x \<le> 0xF4 then
           (case rest of
              b1 # b2 # b3 # _ \<Rightarrow>
                if byteIn (if x = 0xF0 then 0x90 else 0x80) (if x = 0xF4 then 0x8F else 0xBF) b1
                   \<and> byteIn 0x80 0xBF b2 \<and> byteIn 0x80 0xBF b3 then 4 else 0
            | _ \<Rightarrow> 0)
         else 0)"

function ValidString :: "string \<Rightarrow> bool" where
  "ValidString s =
     (if s = [] then True
      else if runeWidth s = 0 then False
      else ValidString (drop (runeWidth s) s))"
  by pat_completeness auto
termination
  by (relation "measure length") auto

text \<open>The loop of \<open>sanitizeUTF8\<close> over the runes of \<open>s\<close>: a byte that decodes to
  \<open>RuneError\<close> with width 1 is skipped, every other rune is kept and encoded again by
  \<open>string(v)\<close>, which gives back its bytes.\<close>

function sanitizeLoop :: "string \<Rightarrow> string" where
  "sanitizeLoop s =
     (if s = [] then []
      else if runeWidth s = 0 then sanitizeLoop (tl s)
      else take (runeWidth s) s @ sanitizeLoop (drop (runeWidth s) s))"
  by pat_completeness auto
termination
  by (relation "measure length") auto

definition sanitizeUTF8 :: "string \<Rightarrow> string" where
  "sanitizeUTF8 s = (if \<not> ValidString s then sanitizeLoop s else s)"

text \<open>The verb \<open>%d\<close> of \<open>fmt.Sprintf\<close> on an index, which is never negative.\<close>

definition digit :: "nat \<Rightarrow> char" where
  "digit d = char_of (48 + d)"

function itoa :: "nat \<Rightarrow> string" where
  "itoa n = (if n < 10 then [digit n] else itoa (n div 10) @ [digit (n mod 10)])"
  by pat_completeness auto
termination
  by (relation "measure id") auto

text \<open>A row of the table that \<open>initialize\<close> creates; \<open>id\<close> is its primary key.\<close>

record Row =
  row_id :: string
  row_url :: string
  row_title :: string
  row_content :: string
  row_chunk_index :: int
  row_embedding :: "real list"
  row_metadata :: "(string \<times> meta_value) list"

text \<open>
  The collaborators of \<open>Store\<close>: whether \<open>pool.Begin\<close> succeeds, what \<open>CreateEmbedding\<close>
  returns for its texts (\<open>None\<close> is an error), whether \<open>tx.Exec\<close> accepts a row given the rows
  the transaction sees, and whether \<open>tx.Commit\<close> succeeds on them.
\<close>

record backend =
  begin_ok :: bool
  CreateEmbedding :: "string list \<Rightarrow> real list list option"
  exec_ok :: "Row list \<Rightarrow> Row \<Rightarrow> bool"
  commit_ok :: "Row list \<Rightarrow> bool"

datatype store_error = BeginFailed | EmbeddingFailed | InsertFailed | CommitFailed

text \<open>
  The statement of \<open>Store\<close> on the rows a transaction sees:
  \<open>INSERT ... ON CONFLICT (id) DO UPDATE SET content, embedding, metadata\<close>.
\<close>

fun upsert :: "Row \<Rightarrow> Row list \<Rightarrow> Row list" where
  "upsert r [] = [r]"
| "upsert r (x # xs) =
     (if row_id x = row_id r
      then x\<lparr>row_content := row_content r, row_embedding := row_embedding r,
              row_metadata := row_metadata r\<rparr> # xs
      else x # upsert r xs)"

text \<open>
  A transaction is the table as it sees it: \<open>pool_Begin\<close> starts from the committed table,
  \<open>tx_Exec\<close> changes the rows of the transaction only, \<open>tx_Commit\<close> makes them the committed
  table, \<open>tx_Rollback\<close> leaves the committed table as it is. Other clients of the database
  are not modelled.
\<close>

definition pool_Begin :: "backend \<Rightarrow> Row list \<Rightarrow> Row list option" where
  "pool_Begin b committed = (if begin_ok b then Some committed else None)"

definition tx_Exec :: "backend \<Rightarrow> Row list \<Rightarrow> Row \<Rightarrow> Row list option" where
  "tx_Exec b tx r = (if exec_ok b tx r then Some (upsert r tx) else None)"

definition tx_Commit :: "backend \<Rightarrow> Row list \<Rightarrow> Row list \<Rightarrow> Row list option" where
  "tx_Commit b tx committed = (if commit_ok b tx then Some tx else None)"

definition tx_Rollback :: "Row list \<Rightarrow> Row list \<Rightarrow> Row list" where
  "tx_Rollback tx committed = committed"

definition compound_id :: "ProcessedDocument \<Rightarrow> nat \<Rightarrow> string" where
  "compound_id doc i = ID (Document doc) @ ''_'' @ itoa i"

text \<open>The inner loop of \<open>Store\<close> over the chunks of one document, from index \<open>i\<close> on.\<close>

fun storeChunks ::
  "backend \<Rightarrow> ProcessedDocument \<Rightarrow> string \<Rightarrow> nat \<Rightarrow> string list \<Rightarrow> Row list
     \<Rightarrow> store_error + Row list"
where
  "storeChunks b doc cleanTitle i [] tx = Inr tx"
| "storeChunks b doc cleanTitle i (chunk # rest) tx =
     (let cleanChunk = sanitizeUTF8 chunk;
          id = compound_id doc i
      in case CreateEmbedding b [cleanChunk] of
           None \<Rightarrow> Inl EmbeddingFailed
         | Some embedding \<Rightarrow>
             (let vectorSlice = concat embedding
              in case tx_Exec b tx
                        \<lparr>row_id = id, row_url = URL (Document doc), row_title = cleanTitle,
                         row_content = cleanChunk, row_chunk_index = int i,
                         row_embedding = vectorSlice,
                         row_metadata = Metadata (Document doc)\<rparr> of
                   None \<Rightarrow> Inl InsertFailed
                 | Some tx' \<Rightarrow> storeChunks b doc cleanTitle (Suc i) rest tx'))"

text \<open>The outer loop of \<open>Store\<close> over the documents.\<close>

fun storeDocs :: "backend \<Rightarrow> ProcessedDocument list \<Rightarrow> Row list \<Rightarrow> store_error + Row list" where
  "storeDocs b [] tx = Inr tx"
| "storeDocs b (doc # docs) tx =
     (case storeChunks b doc (sanitizeUTF8 (Title (Document doc))) 0 (Chunks doc) tx of
        Inl e \<Rightarrow> Inl e
      | Inr tx' \<Rightarrow> storeDocs b docs tx')"

text \<open>\<open>Store\<close> on the committed table: it returns its error (\<open>None\<close> is \<open>nil\<close>) and the
  committed table it leaves. The deferred \<open>tx.Rollback\<close> runs on every return; after a
  successful commit it does nothing.\<close>

definition Store ::
  "backend \<Rightarrow> Row list \<Rightarrow> ProcessedDocument list \<Rightarrow> store_error option \<times> Row list" where
  "Store b committed docs =
     (case pool_Begin b committed of
        None \<Rightarrow> (Some BeginFailed, committed)
      | Some tx \<Rightarrow>
          (case storeDocs b docs tx of
             Inl e \<Rightarrow> (Some e, tx_Rollback tx committed)
           | Inr tx' \<Rightarrow>
               (case tx_Commit b tx' committed of
                  None \<Rightarrow> (Some CommitFailed, tx_Rollback tx' committed)
                | Some committed' \<Rightarrow> (None, committed'))))"

section \<open>Notions used in the statements\<close>

text \<open>The depth that a document carries in its metadata.\<close>

definition metaDepth :: "Document \<Rightarrow> int option" where
  "metaDepth d = (case map_of (Metadata d) ''depth'' of Some (MInt k) \<Rightarrow> Some k | _ \<Rightarrow> None)"

text \<open>A document is in scope: its URL parses, its host is the scraper's host, and the depth
  in its metadata is at most \<open>MaxDepth\<close>.\<close>

definition inScope :: "world \<Rightarrow> Scraper \<Rightarrow> Document \<Rightarrow> bool" where
  "inScope w s d =
     ((\<exists>u. url_Parse w (URL d) = Some u \<and> Host u = baseHost s)
      \<and> (\<exists>k. metaDepth d = Some k \<and> k \<le> MaxDepth (scraper_config s)))"

text \<open>
  What a part of a crawl may do to the state and to the documents: the visited set grows, the
  requests it adds are pairwise different, were not visited before and are visited after,
  and the documents it adds are in scope.
\<close>

definition crawlStep ::
  "world \<Rightarrow> Scraper \<Rightarrow> scraper_state \<times> Document list \<Rightarrow> scraper_state \<times> Document list \<Rightarrow> bool"
where
  "crawlStep w s st st' =
     (visited (fst st) \<subseteq> visited (fst st')
      \<and> (\<exists>new. fetched (fst st') = fetched (fst st) @ new \<and> distinct new
                \<and> set new \<inter> visited (fst st) = {} \<and> set new \<subseteq> visited (fst st'))
      \<and> (\<exists>added. snd st' = snd st @ added \<and> list_all (inScope w s) added))"

text \<open>
  The buffers that the loop of \<open>splitIntoChunks\<close> closes, in order, followed by the buffer
  left when the sentences are used up. This is not a function of the source: it is the loop
  \<open>chunkLoop\<close> again, recording \<open>currentChunk\<close> at every reset whether or not it is
  emitted; \<open>overlapSeed\<close> is what the reset leaves in the builder. Lemma
  \<open>chunkLoop_closedBuffers\<close> ties it to the loop.
\<close>

definition overlapSeed :: "ProcessorConfig \<Rightarrow> string \<Rightarrow> string" where
  "overlapSeed cfg currentChunk =
     (if ChunkOverlap cfg > 0 \<and> int (length currentChunk) > ChunkOverlap cfg
      then drop (length currentChunk - nat (ChunkOverlap cfg)) currentChunk
      else [])"

fun closedBuffers :: "ProcessorConfig \<Rightarrow> string list \<Rightarrow> string \<Rightarrow> string list" where
  "closedBuffers cfg [] currentChunk = [currentChunk]"
| "closedBuffers cfg (sentence # rest) currentChunk =
     (if int (length currentChunk) + int (length sentence) > ChunkSize cfg
      then currentChunk # closedBuffers cfg rest (overlapSeed cfg currentChunk @ sentence @ '' '')
      else closedBuffers cfg rest (currentChunk @ sentence @ '' ''))"

text \<open>The buffers that \<open>splitIntoChunks\<close> closes on a text.\<close>

definition chunkBuffers :: "Processor \<Rightarrow> string \<Rightarrow> string list" where
  "chunkBuffers p text = closedBuffers (config p) (splitIntoSentences text) []"

text \<open>The compound ids of the chunks of a batch, in the order in which \<open>Store\<close> writes them.\<close>

definition chunkIds :: "ProcessedDocument list \<Rightarrow> string list" where
  "chunkIds docs = concat (map (\<lambda>doc. map (compound_id doc) [0..<length (Chunks doc)]) docs)"

text \<open>
  The chunks of a batch in the order in which \<open>Store\<close> reaches them, each with its document
  and its index, the compound id of such a chunk, and the row that \<open>Store\<close> hands to \<open>tx.Exec\<close>
  for it once its embedding is there.
\<close>

definition batchChunks :: "ProcessedDocument list \<Rightarrow> (ProcessedDocument \<times> nat \<times> string) list" where
  "batchChunks docs =
     concat (map (\<lambda>doc. map (\<lambda>(i, chunk). (doc, i, chunk)) (enumerate 0 (Chunks doc))) docs)"

definition writeId :: "ProcessedDocument \<times> nat \<times> string \<Rightarrow> string" where
  "writeId wr = (case wr of (doc, i, chunk) \<Rightarrow> compound_id doc i)"

definition chunkRow :: "ProcessedDocument \<Rightarrow> nat \<Rightarrow> string \<Rightarrow> real list list \<Rightarrow> Row" where
  "chunkRow doc i chunk embedding =
     \<lparr>row_id = compound_id doc i, row_url = URL (Document doc),
      row_title = sanitizeUTF8 (Title (Document doc)), row_content = sanitizeUTF8 chunk,
      row_chunk_index = int i, row_embedding = concat embedding,
      row_metadata = Metadata (Document doc)\<rparr>"

text \<open>
  What the specification asks of \<open>Index\<close>, in its words: for every chunk of every document,
  compute the embedding of the chunk's text and upsert its row. \<open>applyWrites\<close> does that on
  the rows a transaction sees and gives the rows with every chunk upserted, or \<open>None\<close> as
  soon as an embedding fails or the database refuses an insert.
\<close>

fun applyWrites ::
  "backend \<Rightarrow> (ProcessedDocument \<times> nat \<times> string) list \<Rightarrow> Row list \<Rightarrow> Row list option"
where
  "applyWrites b [] tx = Some tx"
| "applyWrites b ((doc, i, chunk) # rest) tx =
     (case CreateEmbedding b [sanitizeUTF8 chunk] of
        None \<Rightarrow> None
      | Some embedding \<Rightarrow>
          if exec_ok b tx (chunkRow doc i chunk embedding)
          then applyWrites b rest (upsert (chunkRow doc i chunk embedding) tx)
          else None)"

section \<open>Inputs for the examples\<close>

text \<open>A chunker with chunk size 5, overlap 2 and minimum length 1.\<close>

definition example_chunker :: Processor where
  "example_chunker =
     processor_NewWithConfig \<lparr>ChunkSize = 5, ChunkOverlap = 2, MinChunkLength = 1,
       RemoveStopwords = False, CustomStopwords = [], PreserveLineBreaks = False\<rparr>"

subsection \<open>A small site\<close>

text \<open>
  An environment in which the statements are evaluated: a page \<open>https://example.com\<close> that
  links to \<open>/b.html\<close> twice and to another host, and a page \<open>/b.html\<close> that links back. \<open>example_Parse\<close> lists what \<open>url.Parse\<close> returns for the strings that occur;
  \<open>example_ResolveReference\<close> and \<open>example_String\<close> are what Go computes for a path reference
  and for a URL without query and fragment. The strings of the examples are ASCII, so
  \<open>unicode_ToLower\<close> is never called.
\<close>

definition example_Parse :: "string \<Rightarrow> ParsedURL option" where
  "example_Parse = map_of
     [(''https://example.com'',
         \<lparr>Scheme = ''https'', Host = ''example.com'', Path = [], RawQuery = [], Fragment = []\<rparr>),
      (''https://example.com/b.html'',
         \<lparr>Scheme = ''https'', Host = ''example.com'', Path = ''/b.html'', RawQuery = [],
          Fragment = []\<rparr>),
      (''/b.html'',
         \<lparr>Scheme = [], Host = [], Path = ''/b.html'', RawQuery = [], Fragment = []\<rparr>),
      (''https://other.org/c.html'',
         \<lparr>Scheme = ''https'', Host = ''other.org'', Path = ''/c.html'', RawQuery = [],
          Fragment = []\<rparr>),
      (''https://example.com/file.pdf'',
         \<lparr>Scheme = ''https'', Host = ''example.com'', Path = ''/file.pdf'', RawQuery = [],
          Fragment = []\<rparr>)]"

definition example_ResolveReference :: "ParsedURL \<Rightarrow> ParsedURL \<Rightarrow> ParsedURL" where
  "example_ResolveReference base ref = ref\<lparr>Scheme := Scheme base, Host := Host base\<rparr>"

definition example_String :: "ParsedURL \<Rightarrow> string" where
  "example_String u = Scheme u @ ''://'' @ Host u @ Path u"

definition example_page :: "string \<Rightarrow> string \<Rightarrow> string option list \<Rightarrow> response" where
  "example_page title text links =
     \<lparr>StatusCode = 200, ContentType = ''text/html'', LastModified = [],
      Body = Some \<lparr>Find = (\<lambda>selector. if selector = ''title'' then [title]
                                        else if selector = ''body'' then [text] else []),
                   anchors = links\<rparr>\<rparr>"

definition example_Get :: "nat \<Rightarrow> string \<Rightarrow> response option" where
  "example_Get k = map_of
     [(''https://example.com'',
         example_page ''Home'' ''Welcome home.''
           [Some ''/b.html'', Some ''https://other.org/c.html'', Some ''/b.html'']),
      (''https://example.com/b.html'',
         example_page ''B'' ''Page b.'' [Some ''https://example.com''])]"

definition example_world :: world where
  "example_world =
     \<lparr>unicode_ToLower = (\<lambda>s. s), url_Parse = example_Parse, url_ResolveReference = example_ResolveReference,
      url_String = example_String, limiter_Wait = (\<lambda>k. True), client_Get = example_Get,
      time_Now = (\<lambda>k. int k)\<rparr>"

definition example_config :: ScraperConfig where
  "example_config =
     \<lparr>BaseURL = ''https://example.com'', MaxDepth = 2, RateLimit = 0, IgnorePatterns = [],
      AllowedExtensions = [], Timeout = 0, OnProgress = True\<rparr>"

text \<open>The scraper that the constructor makes from \<open>example_config\<close>, the state it starts
  with, and the state after a crawl from \<open>https://example.com\<close>.\<close>

definition example_scraper :: Scraper where
  "example_scraper =
     \<lparr>scraper_config =
        \<lparr>BaseURL = ''https://example.com'', MaxDepth = 2, RateLimit = 2, IgnorePatterns = [],
         AllowedExtensions = [''.html'', ''.htm'', ''/'', []], Timeout = 30000000000,
         OnProgress = True\<rparr>,
      client = 30000000000, limiter = (2, 1), baseHost = ''example.com''\<rparr>"

definition example_fresh :: scraper_state where
  "example_fresh = \<lparr>visited = {}, admitted = 0, progress = [], fetched = []\<rparr>"

definition example_after :: scraper_state where
  "example_after =
     \<lparr>visited = {''https://example.com/b.html'', ''https://example.com''}, admitted = 2,
      progress = [''https://example.com'', ''https://example.com/b.html''],
      fetched = [''https://example.com'', ''https://example.com/b.html'']\<rparr>"

text \<open>A configuration file whose scraper and processor sections are invalid.\<close>

definition example_file_config :: Config where
  "example_file_config =
     \<lparr>LLM = \<lparr>llm_BaseURL = ''https://example.com'', llm_Model = ''mistral'',
              llm_MaxTokens = 1000, llm_Temperature = 1\<rparr>,
      Database = \<lparr>db_URL = [], db_TableName = ''documents'', db_VectorDim = 768,
                   db_BatchSize = 100\<rparr>,
      Scraper = \<lparr>sc_MaxDepth = 3, sc_RateLimit = 0, sc_IgnorePatterns = [],
                  sc_AllowedExtensions = [''.html'']\<rparr>,
      Processor = \<lparr>pr_ChunkSize = 10, pr_ChunkOverlap = 20, pr_RemoveStopwords = False\<rparr>,
      UI = \<lparr>ui_Streaming = False, ui_Theme = ''default''\<rparr>\<rparr>"

text \<open>An embedding service that always answers and a database that never refuses.\<close>

definition example_backend :: backend where
  "example_backend =
     \<lparr>begin_ok = True, CreateEmbedding = (\<lambda>texts. Some (map (\<lambda>t. [real (length t)]) texts)),
      exec_ok = (\<lambda>tx r. True), commit_ok = (\<lambda>tx. True)\<rparr>"

text \<open>A database that refuses an insert once the transaction holds a row, so that the
  second insert of a batch fails.\<close>

definition example_failing_backend :: backend where
  "example_failing_backend = example_backend\<lparr>exec_ok := (\<lambda>tx r. tx = [])\<rparr>"

definition example_processed :: ProcessedDocument where
  "example_processed =
     \<lparr>Document = \<lparr>ID = ''test1'', URL = ''https://example.com/1'', Title = ''Test Document 1'',
                  Content = [], Metadata = [(''source'', MString ''test'')]\<rparr>,
      Chunks = [''This is chunk 1'', ''This is chunk 2''], Embedding = []\<rparr>"

text \<open>A batch of two documents as the crawler makes them, with the \<open>ID\<close> left empty, one
  chunk each.\<close>

definition example_crawled :: "ProcessedDocument list" where
  "example_crawled =
     [\<lparr>Document = \<lparr>ID = [], URL = ''https://example.com'', Title = ''Home'',
                   Content = ''first page'', Metadata = []\<rparr>,
       Chunks = [''first page''], Embedding = []\<rparr>,
      \<lparr>Document = \<lparr>ID = [], URL = ''https://example.com/b.html'', Title = ''B'',
                   Content = ''second page'', Metadata = []\<rparr>,
       Chunks = [''second page''], Embedding = []\<rparr>]"

section \<open>The chunker\<close>

subsection \<open>The loop and the buffers it closes\<close>

lemma closedBuffers_nonempty: "closedBuffers cfg ss cur \<noteq> []"
  by (induction ss arbitrary: cur) auto

lemma chunkLoop_closedBuffers:
  "chunkLoop cfg ss cur chunks =
     Inr (last (closedBuffers cfg ss cur),
          chunks @ filter (\<lambda>b. MinChunkLength cfg \<le> int (length b))
                     (butlast (closedBuffers cfg ss cur)))"
proof (induction ss arbitrary: cur chunks)
  case Nil
  then show ?case by simp
next
  case (Cons s ss)
  show ?case
    using Cons.IH
    by (simp add: closedBuffers_nonempty sliceFrom_def Let_def overlapSeed_def nat_diff_distrib)
qed

lemma splitIntoChunks_closedBuffers:
  "splitIntoChunks p text =
     Inr (filter (\<lambda>b. MinChunkLength (config p) \<le> int (length b)) (butlast (chunkBuffers p text))
          @ (if MinChunkLength (config p) \<le> int (length (last (chunkBuffers p text)))
             then [TrimSpace (last (chunkBuffers p text))] else []))"
  by (simp add: splitIntoChunks_def chunkBuffers_def chunkLoop_closedBuffers)

lemma closedBuffers_hd: "take (length cur) (hd (closedBuffers cfg ss cur)) = cur"
proof (induction ss arbitrary: cur)
  case Nil
  then show ?case by simp
next
  case (Cons s ss)
  have "take (length cur) (take (length (cur @ s @ '' ''))
          (hd (closedBuffers cfg ss (cur @ s @ '' '')))) = take (length cur) (cur @ s @ '' '')"
    by (simp only: Cons.IH)
  then show ?case by (simp add: min_def)
qed

lemma overlapSeed_length:
  "0 < ChunkOverlap cfg \<Longrightarrow> ChunkOverlap cfg < int (length cur) \<Longrightarrow>
   length (overlapSeed cfg cur) = nat (ChunkOverlap cfg)"
  by (simp add: overlapSeed_def)

lemma closedBuffers_overlap:
  assumes "0 < ChunkOverlap cfg"
  shows "Suc i < length (closedBuffers cfg ss cur) \<Longrightarrow>
         ChunkOverlap cfg < int (length (closedBuffers cfg ss cur ! i)) \<Longrightarrow>
         take (nat (ChunkOverlap cfg)) (closedBuffers cfg ss cur ! Suc i)
           = drop (length (closedBuffers cfg ss cur ! i) - nat (ChunkOverlap cfg))
               (closedBuffers cfg ss cur ! i)"
proof (induction ss arbitrary: cur i)
  case Nil
  then show ?case by simp
next
  case (Cons s ss)
  show ?case
  proof (cases "int (length cur) + int (length s) > ChunkSize cfg")
    case False
    then show ?thesis using Cons by simp
  next
    case True
    let ?next = "overlapSeed cfg cur @ s @ '' ''"
    have eq: "closedBuffers cfg (s # ss) cur = cur # closedBuffers cfg ss ?next"
      using True by simp
    show ?thesis
    proof (cases i)
      case 0
      then have long: "ChunkOverlap cfg < int (length cur)"
        using Cons.prems eq by simp
      have len: "length (overlapSeed cfg cur) = nat (ChunkOverlap cfg)"
        using assms long by (rule overlapSeed_length)
      have "take (length ?next) (hd (closedBuffers cfg ss ?next)) = ?next"
        by (rule closedBuffers_hd)
      then have "take (nat (ChunkOverlap cfg))
                   (take (length ?next) (hd (closedBuffers cfg ss ?next)))
                 = take (nat (ChunkOverlap cfg)) ?next"
        by simp
      then have "take (nat (ChunkOverlap cfg)) (hd (closedBuffers cfg ss ?next))
                 = overlapSeed cfg cur"
        using len by (simp add: min_def)
      moreover have "overlapSeed cfg cur = drop (length cur - nat (ChunkOverlap cfg)) cur"
        using assms long by (simp add: overlapSeed_def)
      ultimately show ?thesis
        using 0 eq by (simp add: hd_conv_nth closedBuffers_nonempty)
    next
      case (Suc j)
      then show ?thesis using Cons.prems Cons.IH[of j ?next] eq by simp
    qed
  qed
qed

lemma emitted_nth:
  assumes "list_all (\<lambda>b. m \<le> int (length b)) bufs" and "bufs \<noteq> []"
  shows "length (filter (\<lambda>b. m \<le> int (length b)) (butlast bufs)
           @ (if m \<le> int (length (last bufs)) then [f (last bufs)] else [])) = length bufs"
    and "Suc j < length bufs \<Longrightarrow>
         (filter (\<lambda>b. m \<le> int (length b)) (butlast bufs)
           @ (if m \<le> int (length (last bufs)) then [f (last bufs)] else [])) ! j = bufs ! j"
proof -
  have all: "\<forall>b \<in> set bufs. m \<le> int (length b)"
    using assms(1) by (simp add: list_all_iff)
  have keep: "filter (\<lambda>b. m \<le> int (length b)) (butlast bufs) = butlast bufs"
    using all by (auto simp: filter_id_conv dest: in_set_butlastD)
  have lst: "m \<le> int (length (last bufs))"
    using all assms(2) by simp
  show "length (filter (\<lambda>b. m \<le> int (length b)) (butlast bufs)
           @ (if m \<le> int (length (last bufs)) then [f (last bufs)] else [])) = length bufs"
    using keep lst assms(2) by simp
  show "(filter (\<lambda>b. m \<le> int (length b)) (butlast bufs)
           @ (if m \<le> int (length (last bufs)) then [f (last bufs)] else [])) ! j = bufs ! j"
    if "Suc j < length bufs"
  proof -
    have "j < length (butlast bufs)"
      using that by simp
    then show ?thesis
      by (simp add: keep nth_append nth_butlast)
  qed
qed

lemma emitted_overlap:
  assumes "0 < ChunkOverlap (config p)"
    and "splitIntoChunks p text = Inr chunks"
    and "list_all (\<lambda>b. MinChunkLength (config p) \<le> int (length b)) (chunkBuffers p text)"
    and "Suc (Suc i) < length chunks"
    and "ChunkOverlap (config p) < int (length (chunks ! i))"
  shows "take (nat (ChunkOverlap (config p))) (chunks ! Suc i)
           = drop (length (chunks ! i) - nat (ChunkOverlap (config p))) (chunks ! i)"
proof -
  let ?bufs = "chunkBuffers p text"
  have ne: "?bufs \<noteq> []"
    by (simp add: chunkBuffers_def closedBuffers_nonempty)
  have chunks: "chunks = filter (\<lambda>b. MinChunkLength (config p) \<le> int (length b)) (butlast ?bufs)
          @ (if MinChunkLength (config p) \<le> int (length (last ?bufs))
             then [TrimSpace (last ?bufs)] else [])"
    using assms(2) by (simp add: splitIntoChunks_closedBuffers)
  have len: "length chunks = length ?bufs"
    unfolding chunks by (rule emitted_nth(1)[OF assms(3) ne])
  have a: "chunks ! i = ?bufs ! i"
    unfolding chunks using assms(4) len by (intro emitted_nth(2)[OF assms(3) ne]) simp
  have b: "chunks ! Suc i = ?bufs ! Suc i"
    unfolding chunks using assms(4) len by (intro emitted_nth(2)[OF assms(3) ne]) simp
  have "take (nat (ChunkOverlap (config p))) (?bufs ! Suc i)
          = drop (length (?bufs ! i) - nat (ChunkOverlap (config p))) (?bufs ! i)"
    using closedBuffers_overlap[OF assms(1), of i "splitIntoSentences text" "[]"]
      assms(4,5) len a
    by (simp add: chunkBuffers_def)
  then show ?thesis
    using a b by simp
qed

subsection \<open>Overlap of consecutive chunks\<close>

text \<open>
  Claim C2, as the code has it. With \<open>chunkOverlap = V > 0\<close>, take the buffers that
  \<open>splitIntoChunks\<close> closes, in order. The emitted chunks are the buffers of length at least
  \<open>minChunkLength\<close>, in that order, the buffer left at the end being emitted with its white
  space trimmed. Whenever a buffer is longer than \<open>V\<close>, the buffer closed next begins with its
  last \<open>V\<close> characters. On the emitted chunks: when no buffer is shorter than
  \<open>minChunkLength\<close>, every emitted chunk but the last begins with the last \<open>V\<close> characters
  of the chunk emitted before it, if that one is longer than \<open>V\<close>.
\<close>

theorem splitIntoChunks_overlap:
  assumes "0 < ChunkOverlap (config p)"
  shows "splitIntoChunks p text =
           Inr (filter (\<lambda>b. MinChunkLength (config p) \<le> int (length b))
                  (butlast (chunkBuffers p text))
                @ (if MinChunkLength (config p) \<le> int (length (last (chunkBuffers p text)))
                   then [TrimSpace (last (chunkBuffers p text))] else []))
         \<and> (\<forall>i. Suc i < length (chunkBuffers p text)
                  \<and> ChunkOverlap (config p) < int (length (chunkBuffers p text ! i))
              \<longrightarrow> take (nat (ChunkOverlap (config p))) (chunkBuffers p text ! Suc i)
                    = drop (length (chunkBuffers p text ! i) - nat (ChunkOverlap (config p)))
                        (chunkBuffers p text ! i))
         \<and> (\<forall>chunks i. splitIntoChunks p text = Inr chunks
                  \<and> list_all (\<lambda>b. MinChunkLength (config p) \<le> int (length b))
                        (chunkBuffers p text)
                  \<and> Suc (Suc i) < length chunks
                  \<and> ChunkOverlap (config p) < int (length (chunks ! i))
              \<longrightarrow> take (nat (ChunkOverlap (config p))) (chunks ! Suc i)
                    = drop (length (chunks ! i) - nat (ChunkOverlap (config p))) (chunks ! i))"
proof (intro conjI allI impI)
  show "splitIntoChunks p text =
           Inr (filter (\<lambda>b. MinChunkLength (config p) \<le> int (length b))
                  (butlast (chunkBuffers p text))
                @ (if MinChunkLength (config p) \<le> int (length (last (chunkBuffers p text)))
                   then [TrimSpace (last (chunkBuffers p text))] else []))"
    by (rule splitIntoChunks_closedBuffers)
next
  fix i
  assume "Suc i < length (chunkBuffers p text)
            \<and> ChunkOverlap (config p) < int (length (chunkBuffers p text ! i))"
  then show "take (nat (ChunkOverlap (config p))) (chunkBuffers p text ! Suc i)
                    = drop (length (chunkBuffers p text ! i) - nat (ChunkOverlap (config p)))
                        (chunkBuffers p text ! i)"
    using closedBuffers_overlap[OF assms, of i "splitIntoSentences text" "[]"]
    by (simp add: chunkBuffers_def)
next
  fix chunks i
  assume "splitIntoChunks p text = Inr chunks
            \<and> list_all (\<lambda>b. MinChunkLength (config p) \<le> int (length b)) (chunkBuffers p text)
            \<and> Suc (Suc i) < length chunks
            \<and> ChunkOverlap (config p) < int (length (chunks ! i))"
  then show "take (nat (ChunkOverlap (config p))) (chunks ! Suc i)
               = drop (length (chunks ! i) - nat (ChunkOverlap (config p))) (chunks ! i)"
    using emitted_overlap[OF assms] by blast
qed

text \<open>The theorem at chunk size 5, overlap 2, minimum 1 and the text \<open>ab. cd. ef.\<close>: three
  buffers, none below the minimum; the first has 4 characters and the second, which is also
  the second chunk, begins with its last two.\<close>

lemma example_chunkBuffers:
  "chunkBuffers example_chunker ''ab. cd. ef.'' = [''ab. '', ''. cd. '', ''. ef. '']"
  by code_simp

lemma example_chunks:
  "splitIntoChunks example_chunker ''ab. cd. ef.'' = Inr [''ab. '', ''. cd. '', ''. ef.'']"
  by code_simp

theorem splitIntoChunks_overlap_witness:
  "0 < ChunkOverlap (config example_chunker)
   \<and> chunkBuffers example_chunker ''ab. cd. ef.'' = [''ab. '', ''. cd. '', ''. ef. '']
   \<and> Suc 0 < length (chunkBuffers example_chunker ''ab. cd. ef.'')
   \<and> ChunkOverlap (config example_chunker)
        < int (length (chunkBuffers example_chunker ''ab. cd. ef.'' ! 0))
   \<and> take (nat (ChunkOverlap (config example_chunker)))
         (chunkBuffers example_chunker ''ab. cd. ef.'' ! Suc 0)
       = drop (length (chunkBuffers example_chunker ''ab. cd. ef.'' ! 0)
                 - nat (ChunkOverlap (config example_chunker)))
           (chunkBuffers example_chunker ''ab. cd. ef.'' ! 0)
   \<and> splitIntoChunks example_chunker ''ab. cd. ef.'' = Inr [''ab. '', ''. cd. '', ''. ef.'']
   \<and> list_all (\<lambda>b. MinChunkLength (config example_chunker) \<le> int (length b))
        (chunkBuffers example_chunker ''ab. cd. ef.'')
   \<and> Suc (Suc 0) < length [''ab. '', ''. cd. '', ''. ef.'']
   \<and> ChunkOverlap (config example_chunker) < int (length ([''ab. '', ''. cd. '', ''. ef.''] ! 0))
   \<and> take (nat (ChunkOverlap (config example_chunker))) ([''ab. '', ''. cd. '', ''. ef.''] ! Suc 0)
       = drop (length ([''ab. '', ''. cd. '', ''. ef.''] ! 0)
                 - nat (ChunkOverlap (config example_chunker)))
           ([''ab. '', ''. cd. '', ''. ef.''] ! 0)"
proof -
  have cfg: "ChunkOverlap (config example_chunker) = 2"
    "MinChunkLength (config example_chunker) = 1"
    by (simp_all add: example_chunker_def processor_NewWithConfig_def)
  have h: "0 < ChunkOverlap (config example_chunker)"
    by (simp add: cfg)
  have long: "Suc 0 < length (chunkBuffers example_chunker ''ab. cd. ef.'')
     \<and> ChunkOverlap (config example_chunker)
          < int (length (chunkBuffers example_chunker ''ab. cd. ef.'' ! 0))"
    by (simp add: example_chunkBuffers cfg)
  have kept: "list_all (\<lambda>b. MinChunkLength (config example_chunker) \<le> int (length b))
        (chunkBuffers example_chunker ''ab. cd. ef.'')"
    by (simp add: example_chunkBuffers cfg)
  have pos: "Suc (Suc 0) < length [''ab. '', ''. cd. '', ''. ef.'']
     \<and> ChunkOverlap (config example_chunker) < int (length ([''ab. '', ''. cd. '', ''. ef.''] ! 0))"
    by (simp add: cfg)
  note inst = splitIntoChunks_overlap[OF h, of "''ab. cd. ef.''"]
  have seeded: "take (nat (ChunkOverlap (config example_chunker)))
         (chunkBuffers example_chunker ''ab. cd. ef.'' ! Suc 0)
       = drop (length (chunkBuffers example_chunker ''ab. cd. ef.'' ! 0)
                 - nat (ChunkOverlap (config example_chunker)))
           (chunkBuffers example_chunker ''ab. cd. ef.'' ! 0)"
    using inst long by blast
  have emitted: "take (nat (ChunkOverlap (config example_chunker)))
         ([''ab. '', ''. cd. '', ''. ef.''] ! Suc 0)
       = drop (length ([''ab. '', ''. cd. '', ''. ef.''] ! 0)
                 - nat (ChunkOverlap (config example_chunker)))
           ([''ab. '', ''. cd. '', ''. ef.''] ! 0)"
    using inst example_chunks kept pos by blast
  show ?thesis
    using h long seeded example_chunks kept pos emitted example_chunkBuffers by blast
qed

text \<open>
  Claim C2 as stated fails when a chunk is exactly as long as the overlap: at chunk size 5,
  overlap 4 and the text \<open>ab. cd.\<close>, the first chunk has 4 characters and the second does not
  begin with them.
\<close>

theorem splitIntoChunks_overlap_counterexample:
  "splitIntoChunks
     (processor_NewWithConfig \<lparr>ChunkSize = 5, ChunkOverlap = 4, MinChunkLength = 1,
        RemoveStopwords = False, CustomStopwords = [], PreserveLineBreaks = False\<rparr>)
     ''ab. cd.'' = Inr [''ab. '', ''cd.'']
   \<and> (0::int) < 4 \<and> (4::int) \<le> int (length ''ab. '')
   \<and> take 4 ''cd.'' \<noteq> drop (length ''ab. '' - 4) ''ab. ''"
proof -
  have "splitIntoChunks
     (processor_NewWithConfig \<lparr>ChunkSize = 5, ChunkOverlap = 4, MinChunkLength = 1,
        RemoveStopwords = False, CustomStopwords = [], PreserveLineBreaks = False\<rparr>)
     ''ab. cd.'' = Inr [''ab. '', ''cd.'']"
    by code_simp
  then show ?thesis by simp
qed

subsection \<open>The minimum length of a chunk\<close>

text \<open>
  Claim C3 at chunk size 50, overlap 10, minimum 20 and a text of 19 characters: the buffer
  has 20 characters with the space written after the sentence, passes the test, and is
  emitted trimmed, with 19 characters.
\<close>

theorem splitIntoChunks_last_chunk_below_minimum:
  "splitIntoChunks
     (processor_NewWithConfig \<lparr>ChunkSize = 50, ChunkOverlap = 10, MinChunkLength = 20,
        RemoveStopwords = False, CustomStopwords = [], PreserveLineBreaks = False\<rparr>)
     ''abcdefghij klmnopqr'' = Inr [''abcdefghij klmnopqr'']
   \<and> int (length ''abcdefghij klmnopqr'')
       < MinChunkLength (config (processor_NewWithConfig
           \<lparr>ChunkSize = 50, ChunkOverlap = 10, MinChunkLength = 20,
            RemoveStopwords = False, CustomStopwords = [], PreserveLineBreaks = False\<rparr>))"
proof -
  have "splitIntoChunks
     (processor_NewWithConfig \<lparr>ChunkSize = 50, ChunkOverlap = 10, MinChunkLength = 20,
        RemoveStopwords = False, CustomStopwords = [], PreserveLineBreaks = False\<rparr>)
     ''abcdefghij klmnopqr'' = Inr [''abcdefghij klmnopqr'']"
    by code_simp
  then show ?thesis by (simp add: processor_NewWithConfig_def)
qed

subsection \<open>Processing never fails\<close>

lemma processLoop_returns:
  "\<exists>processed. processLoop w p docs acc = Inr processed
      \<and> length processed = length acc + length docs"
proof (induction docs arbitrary: acc)
  case Nil
  then show ?case by simp
next
  case (Cons doc docs)
  obtain chunks where c: "splitIntoChunks p (cleanText w p (Content doc)) = Inr chunks"
    using splitIntoChunks_closedBuffers by blast
  show ?case
    using Cons.IH[of "acc @ [\<lparr>Document = doc, Chunks = chunks, Embedding = []\<rparr>]"] c
    by simp
qed

text \<open>
  Claim C10. For every processor, so for every configuration given to the constructor, and
  for every list of documents, \<open>Process\<close> returns: it does not panic, its error is \<open>nil\<close>, and
  it gives one processed document for each document.
\<close>

theorem Process_returns_nil_error:
  "\<exists>processed. Process w p docs = Inr (processed, None) \<and> length processed = length docs"
  using processLoop_returns[of w p docs "[]"] by (auto simp: Process_def)

section \<open>The crawler\<close>

subsection \<open>Admission\<close>

lemma shouldProcessURL_host:
  "shouldProcessURL w s urlStr \<Longrightarrow> \<exists>u. url_Parse w urlStr = Some u \<and> Host u = baseHost s"
  by (auto simp: shouldProcessURL_def split: option.splits if_splits)

lemma newDocument_inScope:
  assumes "shouldProcessURL w s urlStr" and "depth \<le> MaxDepth (scraper_config s)"
  shows "inScope w s (newDocument w k urlStr depth resp doc)"
  using shouldProcessURL_host[OF assms(1)] assms(2)
  by (simp add: inScope_def newDocument_def metaDepth_def)

subsection \<open>Every part of a crawl is a crawl step\<close>

lemma crawlStep_refl: "crawlStep w s st st"
  by (simp add: crawlStep_def)

lemma crawlStep_trans:
  assumes "crawlStep w s a b" and "crawlStep w s b c"
  shows "crawlStep w s a c"
proof -
  from assms(1) obtain n1 d1 where
    ab: "visited (fst a) \<subseteq> visited (fst b)" "fetched (fst b) = fetched (fst a) @ n1"
        "distinct n1" "set n1 \<inter> visited (fst a) = {}" "set n1 \<subseteq> visited (fst b)"
        "snd b = snd a @ d1" "list_all (inScope w s) d1"
    unfolding crawlStep_def by blast
  from assms(2) obtain n2 d2 where
    bc: "visited (fst b) \<subseteq> visited (fst c)" "fetched (fst c) = fetched (fst b) @ n2"
        "distinct n2" "set n2 \<inter> visited (fst b) = {}" "set n2 \<subseteq> visited (fst c)"
        "snd c = snd b @ d2" "list_all (inScope w s) d2"
    unfolding crawlStep_def by blast
  have vis: "visited (fst a) \<subseteq> visited (fst c)"
    using ab(1) bc(1) by blast
  have fet: "fetched (fst c) = fetched (fst a) @ (n1 @ n2)"
    using ab(2) bc(2) by simp
  have dis: "distinct (n1 @ n2)"
    using ab(3) bc(3) ab(5) bc(4) by auto
  have new: "set (n1 @ n2) \<inter> visited (fst a) = {}"
    using ab(4) bc(4) ab(1) by auto
  have sub: "set (n1 @ n2) \<subseteq> visited (fst c)"
    using ab(5) bc(5) bc(1) by auto
  have docs: "snd c = snd a @ (d1 @ d2)" "list_all (inScope w s) (d1 @ d2)"
    using ab(6,7) bc(6,7) by simp_all
  show ?thesis
    unfolding crawlStep_def using vis fet dis new sub docs by blast
qed

lemma crawlStep_mark:
  "crawlStep w s (h, documents)
     (h\<lparr>visited := insert urlStr (visited h), admitted := n, progress := p\<rparr>, documents)"
  by (auto simp: crawlStep_def)

lemma crawlStep_fetch:
  assumes "urlStr \<notin> visited h"
  shows "crawlStep w s (h, documents)
           (h\<lparr>visited := insert urlStr (visited h), admitted := n, progress := p,
               fetched := fetched h @ [urlStr]\<rparr>, documents)"
  using assms by (auto simp: crawlStep_def)

lemma crawlStep_document:
  assumes "urlStr \<notin> visited h" and "inScope w s d"
  shows "crawlStep w s (h, documents)
           (h\<lparr>visited := insert urlStr (visited h), admitted := n, progress := p,
               fetched := fetched h @ [urlStr]\<rparr>, documents @ [d])"
  using assms by (auto simp: crawlStep_def)

lemma scrapeRecursive_crawlStep:
  "crawlStep w s st (snd (scrapeRecursive w s urlStr depth st))"
proof (induction w s urlStr depth st rule: scrapeRecursive.induct)
  case (1 w s urlStr depth h documents)
  show ?case
  proof (cases "depth > MaxDepth (scraper_config s) \<or> urlStr \<in> visited h
                  \<or> \<not> shouldProcessURL w s urlStr")
    case True
    then show ?thesis by (auto simp: crawlStep_refl)
  next
    case admit: False
    show ?thesis
    proof (cases "limiter_Wait w (admitted h)")
      case False
      then show ?thesis using admit by (simp add: Let_def crawlStep_mark)
    next
      case wait: True
      show ?thesis
      proof (cases "client_Get w (admitted h) urlStr")
        case None
        then show ?thesis using admit wait by (simp add: Let_def crawlStep_fetch)
      next
        case (Some resp)
        show ?thesis
        proof (cases "StatusCode resp = 200")
          case False
          then show ?thesis using admit wait Some by (simp add: Let_def crawlStep_fetch)
        next
          case ok: True
          show ?thesis
          proof (cases "Body resp")
            case None
            then show ?thesis using admit wait Some ok by (simp add: Let_def crawlStep_fetch)
          next
            case body: (Some doc)
            let ?follow = "\<lambda>attr st. case absoluteLink w urlStr attr of
                             None \<Rightarrow> st
                           | Some absoluteURL \<Rightarrow>
                               snd (scrapeRecursive w s absoluteURL (depth + 1) st)"
            have link: "crawlStep w s st (snd (scrapeRecursive w s a (depth + 1) st))"
              if "attr \<in> set (anchors doc)" "absoluteLink w urlStr attr = Some a"
              for attr a st
              using "1.IH"[OF _ _ refl refl _ refl Some _ body that] admit wait ok by simp
            have links: "crawlStep w s st (fold ?follow xs st)"
              if "set xs \<subseteq> set (anchors doc)" for xs st
              using that
            proof (induction xs arbitrary: st)
              case Nil
              then show ?case by (simp add: crawlStep_refl)
            next
              case (Cons attr xs)
              have first: "crawlStep w s st (?follow attr st)"
                using Cons.prems link[of attr] by (auto simp: crawlStep_refl split: option.splits)
              have rest: "crawlStep w s (?follow attr st) (fold ?follow xs (?follow attr st))"
                using Cons.IH Cons.prems by simp
              show ?case
                using crawlStep_trans[OF first rest] by simp
            qed
            have head: "crawlStep w s (h, documents)
                 (h\<lparr>visited := insert urlStr (visited h), admitted := Suc (admitted h),
                     progress := (if OnProgress (scraper_config s)
                                  then progress h @ [urlStr] else progress h),
                     fetched := fetched h @ [urlStr]\<rparr>,
                  documents @ [newDocument w (admitted h) urlStr depth resp doc])"
              using admit by (intro crawlStep_document newDocument_inScope) auto
            show ?thesis
              using crawlStep_trans[OF head links[OF subset_refl]] admit wait Some ok body
              by (simp add: Let_def)
          qed
        qed
      qed
    qed
  qed
qed

subsection \<open>The constructor\<close>

lemma scraper_NewWithConfig_baseHost:
  assumes "scraper_NewWithConfig w cfg = Inr (s, h0)"
  shows "\<exists>b. url_Parse w (BaseURL cfg) = Some b \<and> baseHost s = Host b \<and> visited h0 = {}"
  using assms
  by (auto simp: scraper_NewWithConfig_def Let_def split: option.splits if_splits)

lemma example_construct:
  "scraper_NewWithConfig example_world example_config = Inr (example_scraper, example_fresh)"
  by (simp add: scraper_NewWithConfig_def example_world_def example_config_def
      example_scraper_def example_fresh_def example_Parse_def)

lemma example_Scrape_urls:
  "map URL (fst (Scrape example_world example_scraper ''https://example.com'' example_fresh))
     = [''https://example.com'', ''https://example.com/b.html'']"
  by code_simp

lemma example_Scrape_state:
  "snd (snd (Scrape example_world example_scraper ''https://example.com'' example_fresh))
     = example_after"
  by code_simp

lemma example_Scrape_again:
  "Scrape example_world example_scraper ''https://example.com'' example_after
     = ([], None, example_after)"
  by code_simp

subsection \<open>The scope of a crawl\<close>

text \<open>
  Claim C1. Take a scraper made by the constructor and any crawl \<open>Scrape(startURL)\<close> it runs,
  whatever its visited map holds at the start. Every document returned has a URL that
  parses to the host of the scraper's base URL, and a depth in its metadata of at most
  \<open>MaxDepth\<close>; the requests of the crawl are pairwise different, so no URL is fetched twice.
\<close>

theorem Scrape_scope:
  assumes "scraper_NewWithConfig w cfg = Inr (s, h0)"
    and "Scrape w s startURL h = (documents, err, h')"
  shows "(\<exists>b. url_Parse w (BaseURL cfg) = Some b \<and> baseHost s = Host b)
         \<and> list_all (inScope w s) documents
         \<and> (\<exists>new. fetched h' = fetched h @ new \<and> distinct new)"
proof -
  have "crawlStep w s (h, []) (snd (scrapeRecursive w s startURL 0 (h, [])))"
    by (rule scrapeRecursive_crawlStep)
  moreover have "snd (scrapeRecursive w s startURL 0 (h, [])) = (h', documents)"
    using assms(2) by (auto simp: Scrape_def split: prod.splits)
  ultimately have "crawlStep w s (h, []) (h', documents)"
    by simp
  then show ?thesis
    using scraper_NewWithConfig_baseHost[OF assms(1)] by (auto simp: crawlStep_def)
qed

text \<open>The theorem on the example site, where \<open>/b.html\<close> is linked twice and links back to
  the start: two documents, both in scope, and two requests.\<close>

theorem Scrape_scope_witness:
  "scraper_NewWithConfig example_world example_config = Inr (example_scraper, example_fresh)
   \<and> map URL (fst (Scrape example_world example_scraper ''https://example.com'' example_fresh))
       = [''https://example.com'', ''https://example.com/b.html'']
   \<and> list_all (inScope example_world example_scraper)
        (fst (Scrape example_world example_scraper ''https://example.com'' example_fresh))
   \<and> distinct (fetched (snd (snd
        (Scrape example_world example_scraper ''https://example.com'' example_fresh))))"
proof -
  obtain documents err h' where
    r: "Scrape example_world example_scraper ''https://example.com'' example_fresh
          = (documents, err, h')"
    using prod_cases3 by blast
  have "fetched example_fresh = []"
    by (simp add: example_fresh_def)
  then show ?thesis
    using Scrape_scope[OF example_construct r] r example_Scrape_urls example_construct
    by auto
qed

subsection \<open>The admission test and the empty extension\<close>

text \<open>
  Claim C6 on the scraper made from \<open>example_config\<close>, whose list of allowed extensions is
  the default one and contains the empty string: no other entry of the list is a suffix
  of the path \<open>/file.pdf\<close>, and \<open>shouldProcessURL\<close> admits the URL all the same, since every
  path has the empty string as a suffix.
\<close>

theorem shouldProcessURL_admits_pdf:
  "scraper_NewWithConfig example_world example_config = Inr (example_scraper, example_fresh)
   \<and> AllowedExtensions (scraper_config example_scraper) = [''.html'', ''.htm'', ''/'', []]
   \<and> \<not> HasSuffix ''/file.pdf'' ''.html'' \<and> \<not> HasSuffix ''/file.pdf'' ''.htm''
   \<and> \<not> HasSuffix ''/file.pdf'' ''/''
   \<and> shouldProcessURL example_world example_scraper ''https://example.com/file.pdf''"
proof -
  have "shouldProcessURL example_world example_scraper ''https://example.com/file.pdf''"
    by code_simp
  then show ?thesis
    using example_construct by (simp add: example_scraper_def HasSuffix_def)
qed

subsection \<open>The life of the visited set\<close>

text \<open>
  Claim C9, as the code has it. The visited map is made once, empty, by the constructor, and
  \<open>Scrape\<close> neither makes nor clears it: of two successive calls on one scraper, the second
  starts from the map the first has left. That map holds every URL the first call has
  requested, and the second call requests none of them.
\<close>

theorem Scrape_visited_persists:
  assumes "scraper_NewWithConfig w cfg = Inr (s, h0)"
    and "Scrape w s url1 h = (docs1, err1, h1)"
    and "Scrape w s url2 h1 = (docs2, err2, h2)"
  shows "visited h0 = {}
         \<and> visited h \<subseteq> visited h1
         \<and> (\<exists>new1 new2. fetched h1 = fetched h @ new1 \<and> fetched h2 = fetched h1 @ new2
               \<and> set new1 \<subseteq> visited h1 \<and> set new2 \<inter> visited h1 = {}
               \<and> set new1 \<inter> set new2 = {})"
proof -
  have "crawlStep w s (h, []) (snd (scrapeRecursive w s url1 0 (h, [])))"
    by (rule scrapeRecursive_crawlStep)
  moreover have "snd (scrapeRecursive w s url1 0 (h, [])) = (h1, docs1)"
    using assms(2) by (auto simp: Scrape_def split: prod.splits)
  ultimately have first: "crawlStep w s (h, []) (h1, docs1)"
    by simp
  have "crawlStep w s (h1, []) (snd (scrapeRecursive w s url2 0 (h1, [])))"
    by (rule scrapeRecursive_crawlStep)
  moreover have "snd (scrapeRecursive w s url2 0 (h1, [])) = (h2, docs2)"
    using assms(3) by (auto simp: Scrape_def split: prod.splits)
  ultimately have second: "crawlStep w s (h1, []) (h2, docs2)"
    by simp
  from first obtain new1 where
    n1: "visited h \<subseteq> visited h1" "fetched h1 = fetched h @ new1" "set new1 \<subseteq> visited h1"
    by (auto simp: crawlStep_def)
  from second obtain new2 where
    n2: "fetched h2 = fetched h1 @ new2" "set new2 \<inter> visited h1 = {}"
    by (auto simp: crawlStep_def)
  have "set new1 \<inter> set new2 = {}"
    using n1(3) n2(2) by blast
  then show ?thesis
    using scraper_NewWithConfig_baseHost[OF assms(1)] n1 n2 by blast
qed

text \<open>The theorem on the example site: the second crawl from the same URL starts with the
  two URLs of the first in the map and requests nothing.\<close>

theorem Scrape_visited_persists_witness:
  "scraper_NewWithConfig example_world example_config = Inr (example_scraper, example_fresh)
   \<and> snd (snd (Scrape example_world example_scraper ''https://example.com'' example_fresh))
       = example_after
   \<and> Scrape example_world example_scraper ''https://example.com'' example_after
       = ([], None, example_after)
   \<and> visited example_fresh = {}
   \<and> visited example_fresh \<subseteq> visited example_after
   \<and> set (fetched example_after) \<subseteq> visited example_after"
proof -
  obtain docs1 err1 where
    r1: "Scrape example_world example_scraper ''https://example.com'' example_fresh
           = (docs1, err1, example_after)"
    using example_Scrape_state by (metis prod.collapse)
  have f: "fetched example_fresh = []"
    by (simp add: example_fresh_def)
  show ?thesis
    using Scrape_visited_persists[OF example_construct r1 example_Scrape_again] f
      example_construct example_Scrape_state example_Scrape_again
    by auto
qed

text \<open>
  Claim C9 as stated fails on the example site: after a first crawl from
  \<open>https://example.com\<close> the visited map is not empty, and a second crawl from the same URL
  on the same scraper returns no document and leaves the list of requests as it was, so the
  URL is not fetched again.
\<close>

theorem Scrape_visited_counterexample:
  "snd (snd (Scrape example_world example_scraper ''https://example.com'' example_fresh))
     = example_after
   \<and> ''https://example.com'' \<in> set (fetched example_after)
   \<and> visited example_after \<noteq> {}
   \<and> Scrape example_world example_scraper ''https://example.com'' example_after
       = ([], None, example_after)"
  using example_Scrape_state example_Scrape_again by (simp add: example_after_def)

section \<open>Validation and construction\<close>

lemma Validate_rate_limit:
  "(\<lparr>Field = ''scraper.rate_limit'', Message = ''rate_limit must be positive''\<rparr>
      \<in> set (Validate w c)) = (sc_RateLimit (Scraper c) \<le> 0)"
  by (auto simp: Validate_def)

lemma Validate_chunk_size:
  "(\<lparr>Field = ''processor.chunk_size'', Message = ''chunk_size must be positive''\<rparr>
      \<in> set (Validate w c)) = (pr_ChunkSize (Processor c) < 1)"
  by (auto simp: Validate_def)

lemma Validate_chunk_overlap:
  "(\<lparr>Field = ''processor.chunk_overlap'',
      Message = ''chunk_overlap must be non-negative and less than chunk_size''\<rparr>
      \<in> set (Validate w c))
   = (pr_ChunkOverlap (Processor c) < 0
      \<or> pr_ChunkOverlap (Processor c) \<ge> pr_ChunkSize (Processor c))"
  by (auto simp: Validate_def)

lemma example_Validate:
  "Validate example_world example_file_config =
     [\<lparr>Field = ''scraper.rate_limit'', Message = ''rate_limit must be positive''\<rparr>,
      \<lparr>Field = ''processor.chunk_overlap'',
       Message = ''chunk_overlap must be non-negative and less than chunk_size''\<rparr>]"
  by (simp add: Validate_def example_file_config_def example_world_def example_Parse_def
      HasPrefix_def)

subsection \<open>The chunker's configuration\<close>

text \<open>
  Claim C4, as the code has it. \<open>processor.NewWithConfig\<close> has no error result and returns a
  processor for every configuration: a chunk size, overlap or minimum length of 0 becomes
  1000, 200 or 100 (in this order, each on its own), and every other value is kept, also a
  negative one and an overlap that is not below the chunk size. The violations are reported
  by \<open>Config.Validate\<close> alone, which the constructor does not call: it reports a chunk size
  below 1 and an overlap that is negative or not below the chunk size, and knows no minimum
  length.
\<close>

theorem processor_NewWithConfig_never_fails:
  "processor_NewWithConfig cfg =
     \<lparr>config = cfg\<lparr>ChunkSize := (if ChunkSize cfg = 0 then 1000 else ChunkSize cfg),
                    ChunkOverlap := (if ChunkOverlap cfg = 0 then 200 else ChunkOverlap cfg),
                    MinChunkLength :=
                      (if MinChunkLength cfg = 0 then 100 else MinChunkLength cfg)\<rparr>\<rparr>
   \<and> (\<lparr>Field = ''processor.chunk_size'', Message = ''chunk_size must be positive''\<rparr>
         \<in> set (Validate w c)) = (pr_ChunkSize (Processor c) < 1)
   \<and> (\<lparr>Field = ''processor.chunk_overlap'',
         Message = ''chunk_overlap must be non-negative and less than chunk_size''\<rparr>
         \<in> set (Validate w c))
       = (pr_ChunkOverlap (Processor c) < 0
          \<or> pr_ChunkOverlap (Processor c) \<ge> pr_ChunkSize (Processor c))"
  using Validate_chunk_size[of w c] Validate_chunk_overlap[of w c]
  by (simp add: processor_NewWithConfig_def Let_def)

text \<open>The theorem at chunk size 10, overlap 20 and minimum length 0, and on the example
  configuration file.\<close>

theorem processor_NewWithConfig_never_fails_witness:
  "processor_NewWithConfig
     \<lparr>ChunkSize = 10, ChunkOverlap = 20, MinChunkLength = 0, RemoveStopwords = False,
      CustomStopwords = [], PreserveLineBreaks = False\<rparr>
     = \<lparr>config = \<lparr>ChunkSize = 10, ChunkOverlap = 20, MinChunkLength = 100,
                   RemoveStopwords = False, CustomStopwords = [],
                   PreserveLineBreaks = False\<rparr>\<rparr>
   \<and> \<lparr>Field = ''processor.chunk_size'', Message = ''chunk_size must be positive''\<rparr>
        \<notin> set (Validate example_world example_file_config)
   \<and> \<lparr>Field = ''processor.chunk_overlap'',
        Message = ''chunk_overlap must be non-negative and less than chunk_size''\<rparr>
        \<in> set (Validate example_world example_file_config)"
  using processor_NewWithConfig_never_fails
          [of "\<lparr>ChunkSize = 10, ChunkOverlap = 20, MinChunkLength = 0, RemoveStopwords = False,
                CustomStopwords = [], PreserveLineBreaks = False\<rparr>"
              example_world example_file_config]
  by (simp add: example_file_config_def)

text \<open>
  Claim C4 as stated fails at chunk size 10, overlap 20 and minimum length -5, which
  violates \<open>chunkOverlap < chunkSize\<close> and \<open>minChunkLength > 0\<close>: the constructor returns a
  processor with exactly this configuration.
\<close>

theorem processor_NewWithConfig_counterexample:
  "\<not> ((20::int) < 10) \<and> \<not> ((-5::int) > 0)
   \<and> processor_NewWithConfig
        \<lparr>ChunkSize = 10, ChunkOverlap = 20, MinChunkLength = -5, RemoveStopwords = False,
         CustomStopwords = [], PreserveLineBreaks = False\<rparr>
       = \<lparr>config = \<lparr>ChunkSize = 10, ChunkOverlap = 20, MinChunkLength = -5,
                     RemoveStopwords = False, CustomStopwords = [],
                     PreserveLineBreaks = False\<rparr>\<rparr>"
  by (simp add: processor_NewWithConfig_def)

subsection \<open>The crawler's rate limit\<close>

lemma scraper_NewWithConfig_result:
  "scraper_NewWithConfig w cfg =
     (case url_Parse w (BaseURL cfg) of
        None \<Rightarrow> Inl URLParseError
      | Some parsedURL \<Rightarrow>
          Inr (\<lparr>scraper_config =
                  cfg\<lparr>Timeout := (if Timeout cfg = 0 then 30 * 1000000000 else Timeout cfg),
                      MaxDepth := (if MaxDepth cfg = 0 then 3 else MaxDepth cfg),
                      RateLimit := (if RateLimit cfg = 0 then 2 else RateLimit cfg),
                      AllowedExtensions :=
                        (if length (AllowedExtensions cfg) = 0
                         then [''.html'', ''.htm'', ''/'', []] else AllowedExtensions cfg)\<rparr>,
                client = (if Timeout cfg = 0 then 30 * 1000000000 else Timeout cfg),
                limiter = (if RateLimit cfg = 0 then 2 else RateLimit cfg, 1),
                baseHost = Host parsedURL\<rparr>,
               \<lparr>visited = {}, admitted = 0, progress = [], fetched = []\<rparr>))"
  by (simp add: scraper_NewWithConfig_def Let_def split: option.splits)

text \<open>
  Claim C5, as the code has it. A rate limit \<open>R \<le> 0\<close> is reported by \<open>Config.Validate\<close>, and
  only such a rate is. The constructor of the scraper does not call it and has no test on
  the rate: for every rate \<open>R\<close>, negative ones included, it fails exactly when the base URL
  does not parse, and otherwise returns a scraper whose limiter has burst 1 and rate \<open>R\<close>,
  or the default rate 2 when \<open>R\<close> is 0.
\<close>

theorem rate_limit_checked_by_Validate_only:
  "(\<lparr>Field = ''scraper.rate_limit'', Message = ''rate_limit must be positive''\<rparr>
      \<in> set (Validate w c)) = (sc_RateLimit (Scraper c) \<le> 0)
   \<and> (\<exists>e. scraper_NewWithConfig w cfg = Inl e) = (url_Parse w (BaseURL cfg) = None)
   \<and> (url_Parse w (BaseURL cfg) \<noteq> None \<longrightarrow>
        (\<exists>s h. scraper_NewWithConfig w cfg = Inr (s, h)
               \<and> RateLimit (scraper_config s) = (if RateLimit cfg = 0 then 2 else RateLimit cfg)
               \<and> limiter s = (if RateLimit cfg = 0 then 2 else RateLimit cfg, 1)))"
  using Validate_rate_limit[of w c]
  by (auto simp: scraper_NewWithConfig_result split: option.splits)

text \<open>The theorem on the example configuration file, whose rate is 0, and on
  \<open>example_config\<close> with the rate set to -1: the constructor returns a scraper whose limiter
  has the rate -1.\<close>

theorem rate_limit_checked_by_Validate_only_witness:
  "sc_RateLimit (Scraper example_file_config) \<le> 0
   \<and> \<lparr>Field = ''scraper.rate_limit'', Message = ''rate_limit must be positive''\<rparr>
        \<in> set (Validate example_world example_file_config)
   \<and> RateLimit (example_config\<lparr>RateLimit := -1\<rparr>) \<le> 0
   \<and> url_Parse example_world (BaseURL (example_config\<lparr>RateLimit := -1\<rparr>)) \<noteq> None
   \<and> (\<exists>s h. scraper_NewWithConfig example_world (example_config\<lparr>RateLimit := -1\<rparr>)
               = Inr (s, h)
             \<and> RateLimit (scraper_config s) = -1 \<and> limiter s = (-1, 1))"
proof -
  have a: "RateLimit (example_config\<lparr>RateLimit := -1\<rparr>) = -1"
    by simp
  have b: "url_Parse example_world (BaseURL (example_config\<lparr>RateLimit := -1\<rparr>)) \<noteq> None"
    by (simp add: example_config_def example_world_def example_Parse_def)
  have c: "sc_RateLimit (Scraper example_file_config) \<le> 0"
    by (simp add: example_file_config_def)
  have "\<exists>s h. scraper_NewWithConfig example_world (example_config\<lparr>RateLimit := -1\<rparr>)
               = Inr (s, h)
             \<and> RateLimit (scraper_config s) = -1 \<and> limiter s = (-1, 1)"
    using rate_limit_checked_by_Validate_only
            [of example_world example_file_config "example_config\<lparr>RateLimit := -1\<rparr>"] a b
    by simp
  then show ?thesis
    using rate_limit_checked_by_Validate_only
            [of example_world example_file_config "example_config\<lparr>RateLimit := -1\<rparr>"] a b c
    by simp
qed

text \<open>
  Claim C5 as stated fails at \<open>example_config\<close> with the rate set to -1: the constructor
  returns a scraper, with a limiter of rate -1, and no error.
\<close>

theorem scraper_NewWithConfig_rate_counterexample:
  "RateLimit (example_config\<lparr>RateLimit := -1\<rparr>) \<le> 0
   \<and> scraper_NewWithConfig example_world (example_config\<lparr>RateLimit := -1\<rparr>)
       = Inr (example_scraper
                \<lparr>scraper_config := scraper_config example_scraper\<lparr>RateLimit := -1\<rparr>,
                 limiter := (-1, 1)\<rparr>,
              example_fresh)"
  by (simp add: scraper_NewWithConfig_result example_world_def example_config_def
      example_scraper_def example_fresh_def example_Parse_def)

section \<open>The vector store\<close>

subsection \<open>Compound ids\<close>

lemma digit_inj: "a < 10 \<Longrightarrow> b < 10 \<Longrightarrow> digit a = digit b \<Longrightarrow> a = b"
  by (simp add: digit_def char_of_eq_iff take_bit_nat_eq_self)

lemma itoa_nonempty: "itoa n \<noteq> []"
  by (subst itoa.simps) simp

lemma itoa_inj: "itoa m = itoa n \<Longrightarrow> m = n"
proof (induction m arbitrary: n rule: itoa.induct)
  case (1 m)
  show ?case
  proof (cases "m < 10")
    case small: True
    show ?thesis
    proof (cases "n < 10")
      case True
      then show ?thesis
        using "1.prems" small digit_inj[of m n]
        by (subst (asm) itoa.simps, subst (asm) (2) itoa.simps) simp
    next
      case False
      then show ?thesis
        using "1.prems" small itoa_nonempty[of "n div 10"]
        by (subst (asm) itoa.simps, subst (asm) (2) itoa.simps) simp
    qed
  next
    case big: False
    show ?thesis
    proof (cases "n < 10")
      case True
      then show ?thesis
        using "1.prems" big itoa_nonempty[of "m div 10"]
        by (subst (asm) itoa.simps, subst (asm) (2) itoa.simps) simp
    next
      case False
      have eq: "itoa (m div 10) @ [digit (m mod 10)] = itoa (n div 10) @ [digit (n mod 10)]"
        using "1.prems" big False
        by (subst (asm) itoa.simps, subst (asm) (2) itoa.simps) simp
      then have "m div 10 = n div 10" "m mod 10 = n mod 10"
        using "1.IH"[OF big, of "n div 10"] digit_inj[of "m mod 10" "n mod 10"] by simp_all
      then show ?thesis
        by (metis div_mult_mod_eq)
    qed
  qed
qed

lemma compound_id_inj: "compound_id doc i = compound_id doc j \<Longrightarrow> i = j"
  by (simp add: compound_id_def itoa_inj)

subsection \<open>The upsert\<close>

lemma upsert_ids:
  "map row_id (upsert r t) =
     (if row_id r \<in> set (map row_id t) then map row_id t else map row_id t @ [row_id r])"
  by (induction t) auto

lemma upsert_written:
  "\<exists>x \<in> set (upsert r t). row_id x = row_id r \<and> row_content x = row_content r
      \<and> row_embedding x = row_embedding r \<and> row_metadata x = row_metadata r"
  by (induction t) auto

lemma upsert_other:
  "x \<in> set t \<Longrightarrow> row_id x \<noteq> row_id r \<Longrightarrow> x \<in> set (upsert r t)"
  by (induction t) auto

subsection \<open>The loops of Store\<close>

lemma storeChunks_ids:
  assumes "storeChunks b doc title i chunks tx = Inr tx'"
  shows "set (map row_id tx')
           = set (map row_id tx) \<union> compound_id doc ` {i ..< i + length chunks}
         \<and> (compound_id doc ` {i ..< i + length chunks} \<subseteq> set (map row_id tx)
              \<longrightarrow> map row_id tx' = map row_id tx)
         \<and> (distinct (map row_id tx) \<longrightarrow> distinct (map row_id tx'))"
  using assms
proof (induction chunks arbitrary: i tx)
  case Nil
  then show ?case by simp
next
  case (Cons chunk rest)
  from Cons.prems obtain e where
    e: "CreateEmbedding b [sanitizeUTF8 chunk] = Some e"
    by (auto simp: Let_def split: option.splits)
  define r where "r = \<lparr>row_id = compound_id doc i, row_url = URL (Document doc),
    row_title = title, row_content = sanitizeUTF8 chunk, row_chunk_index = int i,
    row_embedding = concat e, row_metadata = Metadata (Document doc)\<rparr>"
  from Cons.prems e have rest: "storeChunks b doc title (Suc i) rest (upsert r tx) = Inr tx'"
    by (auto simp: Let_def tx_Exec_def r_def split: option.splits if_splits)
  note IH = Cons.IH[OF rest]
  have rid: "row_id r = compound_id doc i"
    by (simp add: r_def)
  have range: "{i ..< i + length (chunk # rest)} = insert i {Suc i ..< Suc i + length rest}"
    by auto
  have ids: "set (map row_id (upsert r tx)) = insert (compound_id doc i) (set (map row_id tx))"
    using rid by (auto simp: upsert_ids)
  have one: "set (map row_id tx')
           = set (map row_id tx) \<union> compound_id doc ` {i ..< i + length (chunk # rest)}"
    using IH ids unfolding range by auto
  have two: "map row_id tx' = map row_id tx"
    if "compound_id doc ` {i ..< i + length (chunk # rest)} \<subseteq> set (map row_id tx)"
  proof -
    have "map row_id (upsert r tx) = map row_id tx"
      using that rid unfolding range by (simp add: upsert_ids)
    moreover have "compound_id doc ` {Suc i ..< Suc i + length rest}
                     \<subseteq> set (map row_id (upsert r tx))"
      using that ids unfolding range by auto
    ultimately show ?thesis using IH by simp
  qed
  have three: "distinct (map row_id tx')" if "distinct (map row_id tx)"
  proof -
    have "distinct (map row_id (upsert r tx))"
      using that by (simp add: upsert_ids)
    then show ?thesis using IH by simp
  qed
  show ?case using one two three by blast
qed

lemma storeChunks_keeps:
  assumes "storeChunks b doc title i chunks tx = Inr tx'" and "x \<in> set tx"
    and "\<forall>j \<ge> i. row_id x \<noteq> compound_id doc j"
  shows "x \<in> set tx'"
  using assms
proof (induction chunks arbitrary: i tx)
  case Nil
  then show ?case by simp
next
  case (Cons chunk rest)
  from Cons.prems(1) obtain e where
    e: "CreateEmbedding b [sanitizeUTF8 chunk] = Some e"
    by (auto simp: Let_def split: option.splits)
  define r where "r = \<lparr>row_id = compound_id doc i, row_url = URL (Document doc),
    row_title = title, row_content = sanitizeUTF8 chunk, row_chunk_index = int i,
    row_embedding = concat e, row_metadata = Metadata (Document doc)\<rparr>"
  from Cons.prems(1) e have rest: "storeChunks b doc title (Suc i) rest (upsert r tx) = Inr tx'"
    by (auto simp: Let_def tx_Exec_def r_def split: option.splits if_splits)
  have "x \<in> set (upsert r tx)"
    using Cons.prems(2,3) by (intro upsert_other) (auto simp: r_def)
  then show ?case
    using Cons.IH[OF rest] Cons.prems(3) by simp
qed

lemma storeChunks_written:
  assumes "storeChunks b doc title i chunks tx = Inr tx'" and "j < length chunks"
  shows "\<exists>x \<in> set tx'. \<exists>e. row_id x = compound_id doc (i + j)
            \<and> CreateEmbedding b [sanitizeUTF8 (chunks ! j)] = Some e
            \<and> row_content x = sanitizeUTF8 (chunks ! j)
            \<and> row_embedding x = concat e
            \<and> row_metadata x = Metadata (Document doc)"
  using assms
proof (induction chunks arbitrary: i j tx)
  case Nil
  then show ?case by simp
next
  case (Cons chunk rest)
  from Cons.prems obtain e where
    e: "CreateEmbedding b [sanitizeUTF8 chunk] = Some e"
    by (auto simp: Let_def split: option.splits)
  define r where "r = \<lparr>row_id = compound_id doc i, row_url = URL (Document doc),
    row_title = title, row_content = sanitizeUTF8 chunk, row_chunk_index = int i,
    row_embedding = concat e, row_metadata = Metadata (Document doc)\<rparr>"
  from Cons.prems e have rest: "storeChunks b doc title (Suc i) rest (upsert r tx) = Inr tx'"
    by (auto simp: Let_def tx_Exec_def r_def split: option.splits if_splits)
  show ?case
  proof (cases j)
    case 0
    obtain x where x: "x \<in> set (upsert r tx)" "row_id x = compound_id doc i"
      "row_content x = sanitizeUTF8 chunk" "row_embedding x = concat e"
      "row_metadata x = Metadata (Document doc)"
      using upsert_written[of r tx] by (auto simp: r_def)
    have "\<forall>j \<ge> Suc i. row_id x \<noteq> compound_id doc j"
      using x(2) compound_id_inj[of doc i] by auto
    then have keep: "x \<in> set tx'"
      using storeChunks_keeps[OF rest x(1)] by simp
    show ?thesis using 0 x keep e by auto
  next
    case (Suc j')
    then show ?thesis
      using Cons.IH[OF rest, of j'] Cons.prems(2) by simp
  qed
qed

lemma storeChunks_embedded:
  assumes "storeChunks b doc title i chunks tx = Inr tx'" and "chunk \<in> set chunks"
  shows "CreateEmbedding b [sanitizeUTF8 chunk] \<noteq> None"
  using assms
  by (induction chunks arbitrary: i tx)
     (auto simp: Let_def tx_Exec_def split: option.splits if_splits)

lemma storeChunks_succeeds:
  assumes "\<forall>texts. CreateEmbedding b texts \<noteq> None" and "\<forall>tx r. exec_ok b tx r"
  shows "\<exists>tx'. storeChunks b doc title i chunks tx = Inr tx'"
  using assms
  by (induction chunks arbitrary: i tx)
     (auto simp: Let_def tx_Exec_def split: option.splits)

lemma chunkIds_Cons:
  "set (chunkIds (doc # docs))
     = compound_id doc ` {0 ..< 0 + length (Chunks doc)} \<union> set (chunkIds docs)"
  by (simp add: chunkIds_def)

lemma storeDocs_ids:
  assumes "storeDocs b docs tx = Inr tx'"
  shows "set (map row_id tx') = set (map row_id tx) \<union> set (chunkIds docs)
         \<and> (set (chunkIds docs) \<subseteq> set (map row_id tx) \<longrightarrow> map row_id tx' = map row_id tx)
         \<and> (distinct (map row_id tx) \<longrightarrow> distinct (map row_id tx'))"
  using assms
proof (induction docs arbitrary: tx)
  case Nil
  then show ?case by (simp add: chunkIds_def)
next
  case (Cons doc docs)
  from Cons.prems obtain tx1 where
    first: "storeChunks b doc (sanitizeUTF8 (Title (Document doc))) 0 (Chunks doc) tx = Inr tx1"
    and rest: "storeDocs b docs tx1 = Inr tx'"
    by (auto split: sum.splits)
  note A = storeChunks_ids[OF first]
  note B = Cons.IH[OF rest]
  have one: "set (map row_id tx') = set (map row_id tx) \<union> set (chunkIds (doc # docs))"
    using A B unfolding chunkIds_Cons by blast
  have two: "map row_id tx' = map row_id tx"
    if "set (chunkIds (doc # docs)) \<subseteq> set (map row_id tx)"
  proof -
    have "map row_id tx1 = map row_id tx"
      using that A unfolding chunkIds_Cons by blast
    moreover have "set (chunkIds docs) \<subseteq> set (map row_id tx1)"
      using that A unfolding chunkIds_Cons by blast
    ultimately show ?thesis using B by simp
  qed
  have three: "distinct (map row_id tx')" if "distinct (map row_id tx)"
    using that A B by blast
  show ?case using one two three by blast
qed

lemma storeDocs_embedded:
  assumes "storeDocs b docs tx = Inr tx'" and "doc \<in> set docs" and "chunk \<in> set (Chunks doc)"
  shows "CreateEmbedding b [sanitizeUTF8 chunk] \<noteq> None"
  using assms
proof (induction docs arbitrary: tx)
  case Nil
  then show ?case by simp
next
  case (Cons d docs)
  from Cons.prems(1) obtain tx1 where
    first: "storeChunks b d (sanitizeUTF8 (Title (Document d))) 0 (Chunks d) tx = Inr tx1"
    and rest: "storeDocs b docs tx1 = Inr tx'"
    by (auto split: sum.splits)
  show ?case
  proof (cases "doc = d")
    case True
    then show ?thesis using storeChunks_embedded[OF first] Cons.prems(3) by simp
  next
    case False
    then show ?thesis using Cons.IH[OF rest] Cons.prems(2,3) by simp
  qed
qed

lemma storeDocs_succeeds:
  assumes "\<forall>texts. CreateEmbedding b texts \<noteq> None" and "\<forall>tx r. exec_ok b tx r"
  shows "\<exists>tx'. storeDocs b docs tx = Inr tx'"
proof (induction docs arbitrary: tx)
  case Nil
  then show ?case by simp
next
  case (Cons doc docs)
  obtain tx1 where
    "storeChunks b doc (sanitizeUTF8 (Title (Document doc))) 0 (Chunks doc) tx = Inr tx1"
    using storeChunks_succeeds[OF assms] by blast
  then show ?case using Cons.IH[of tx1] by simp
qed

subsection \<open>The loops of Store and the writes of a batch\<close>

lemma applyWrites_append:
  "applyWrites b (ws1 @ ws2) tx =
     (case applyWrites b ws1 tx of None \<Rightarrow> None | Some t \<Rightarrow> applyWrites b ws2 t)"
  by (induction ws1 arbitrary: tx) (auto split: option.splits if_splits)

lemma storeChunks_applyWrites:
  "(storeChunks b doc (sanitizeUTF8 (Title (Document doc))) i chunks tx = Inr tx')
     = (applyWrites b (map (\<lambda>(j, chunk). (doc, j, chunk)) (enumerate i chunks)) tx = Some tx')"
  by (induction chunks arbitrary: i tx)
     (auto simp: Let_def tx_Exec_def chunkRow_def split: option.splits)

lemma storeDocs_applyWrites:
  "(storeDocs b docs tx = Inr tx') = (applyWrites b (batchChunks docs) tx = Some tx')"
proof (induction docs arbitrary: tx)
  case Nil
  then show ?case by (simp add: batchChunks_def)
next
  case (Cons doc docs)
  let ?ws = "map (\<lambda>(j, chunk). (doc, j, chunk)) (enumerate 0 (Chunks doc))"
  have split: "batchChunks (doc # docs) = ?ws @ batchChunks docs"
    by (simp add: batchChunks_def)
  show ?case
  proof (cases "storeChunks b doc (sanitizeUTF8 (Title (Document doc))) 0 (Chunks doc) tx")
    case (Inl e)
    then have "applyWrites b ?ws tx = None"
      using storeChunks_applyWrites[of b doc 0 "Chunks doc" tx] by (cases "applyWrites b ?ws tx") auto
    then show ?thesis
      using Inl by (simp add: split applyWrites_append)
  next
    case (Inr tx1)
    then have "applyWrites b ?ws tx = Some tx1"
      using storeChunks_applyWrites[of b doc 0 "Chunks doc" tx tx1] by simp
    then show ?thesis
      using Inr Cons.IH[of tx1] by (simp add: split applyWrites_append)
  qed
qed

lemma applyWrites_keeps:
  assumes "applyWrites b ws tx = Some tx'" and "x \<in> set tx"
    and "\<forall>wr \<in> set ws. writeId wr \<noteq> row_id x"
  shows "x \<in> set tx'"
  using assms
proof (induction ws arbitrary: tx)
  case Nil
  then show ?case by simp
next
  case (Cons wr rest)
  obtain doc i chunk where wr: "wr = (doc, i, chunk)"
    by (cases wr) auto
  from Cons.prems(1) wr obtain e where
    rest: "applyWrites b rest (upsert (chunkRow doc i chunk e) tx) = Some tx'"
    by (auto split: option.splits if_splits)
  have "row_id x \<noteq> row_id (chunkRow doc i chunk e)"
    using Cons.prems(3) wr by (auto simp: writeId_def chunkRow_def)
  then have "x \<in> set (upsert (chunkRow doc i chunk e) tx)"
    using Cons.prems(2) by (intro upsert_other)
  then show ?case
    using Cons.IH[OF rest] Cons.prems(3) by simp
qed

lemma applyWrites_written:
  assumes "applyWrites b ws tx = Some tx'" and "k < length ws" and "ws ! k = (doc, i, chunk)"
    and "\<forall>k'. k < k' \<and> k' < length ws \<longrightarrow> writeId (ws ! k') \<noteq> compound_id doc i"
  shows "\<exists>x \<in> set tx'. \<exists>e. CreateEmbedding b [sanitizeUTF8 chunk] = Some e
            \<and> row_id x = compound_id doc i \<and> row_content x = sanitizeUTF8 chunk
            \<and> row_embedding x = concat e \<and> row_metadata x = Metadata (Document doc)"
  using assms
proof (induction ws arbitrary: tx k)
  case Nil
  then show ?case by simp
next
  case (Cons wr rest)
  obtain d0 i0 c0 where wr: "wr = (d0, i0, c0)"
    by (cases wr) auto
  from Cons.prems(1) wr obtain e where
    e: "CreateEmbedding b [sanitizeUTF8 c0] = Some e"
    and rest: "applyWrites b rest (upsert (chunkRow d0 i0 c0 e) tx) = Some tx'"
    by (auto split: option.splits if_splits)
  show ?case
  proof (cases k)
    case 0
    then have same: "d0 = doc" "i0 = i" "c0 = chunk"
      using Cons.prems(3) wr by simp_all
    obtain x where x: "x \<in> set (upsert (chunkRow doc i chunk e) tx)"
      "row_id x = compound_id doc i" "row_content x = sanitizeUTF8 chunk"
      "row_embedding x = concat e" "row_metadata x = Metadata (Document doc)"
      using upsert_written[of "chunkRow doc i chunk e" tx] by (auto simp: chunkRow_def)
    have "\<forall>wr' \<in> set rest. writeId wr' \<noteq> row_id x"
    proof
      fix wr' assume "wr' \<in> set rest"
      then obtain j where "j < length rest" "rest ! j = wr'"
        by (auto simp: in_set_conv_nth)
      then show "writeId wr' \<noteq> row_id x"
        using Cons.prems(4)[rule_format, of "Suc j"] 0 x(2) by auto
    qed
    then have "x \<in> set tx'"
      using applyWrites_keeps[OF rest[unfolded same] x(1)] by simp
    then show ?thesis
      using x e same by auto
  next
    case (Suc k')
    have "\<forall>j. k' < j \<and> j < length rest \<longrightarrow> writeId (rest ! j) \<noteq> compound_id doc i"
    proof (intro allI impI)
      fix j assume "k' < j \<and> j < length rest"
      then show "writeId (rest ! j) \<noteq> compound_id doc i"
        using Cons.prems(4)[rule_format, of "Suc j"] Suc by auto
    qed
    then show ?thesis
      using Cons.IH[OF rest, of k'] Cons.prems(2,3) Suc by simp
  qed
qed

lemma Store_nil:
  "Store b committed docs = (None, t) \<longleftrightarrow>
     begin_ok b \<and> storeDocs b docs committed = Inr t \<and> commit_ok b t"
  by (auto simp: Store_def pool_Begin_def tx_Commit_def tx_Rollback_def
      split: option.splits sum.splits if_splits)

lemma Store_error:
  "fst (Store b committed docs) \<noteq> None \<Longrightarrow> snd (Store b committed docs) = committed"
  by (auto simp: Store_def pool_Begin_def tx_Commit_def tx_Rollback_def
      split: option.splits sum.splits if_splits)

lemma example_Store_ok:
  "fst (Store example_backend [] [example_processed]) = None"
  by code_simp

lemma example_Store_ids:
  "map row_id (snd (Store example_backend [] [example_processed])) = [''test1_0'', ''test1_1'']"
  by code_simp

lemma example_Store_again_ok:
  "fst (Store example_backend (snd (Store example_backend [] [example_processed]))
          [example_processed]) = None"
  by code_simp

lemma example_Store_again_contents:
  "map row_content (snd (Store example_backend
       (snd (Store example_backend [] [example_processed])) [example_processed]))
     = [''This is chunk 1'', ''This is chunk 2'']"
  by code_simp

lemma example_Store_fails:
  "fst (Store example_failing_backend [] [example_processed]) = Some InsertFailed"
  by code_simp

lemma example_Store_contents:
  "map row_content (snd (Store example_backend [] [example_processed]))
     = [''This is chunk 1'', ''This is chunk 2'']"
  by code_simp

lemma example_crawled_Store:
  "fst (Store example_backend [] example_crawled) = None"
  "map row_id (snd (Store example_backend [] example_crawled)) = [''_0'']"
  "map row_url (snd (Store example_backend [] example_crawled)) = [''https://example.com'']"
  "map row_content (snd (Store example_backend [] example_crawled)) = [''second page'']"
  by code_simp+

subsection \<open>All or nothing\<close>

text \<open>
  Claim C7, as the code has it. \<open>Store\<close> runs the whole batch in one transaction on the
  committed table, so for every batch, table and behaviour of the collaborators: if the call
  returns an error, the committed table is the one it started from. The call returns \<open>nil\<close>
  exactly when \<open>Begin\<close> succeeds, the embedding of every chunk is computed and its insert is
  accepted on the rows the transaction holds at that point, and \<open>Commit\<close> succeeds; the
  committed table is then the old one with the row of every chunk upserted in the order of
  the batch. Its ids are the old ones and the compound ids of the batch, and a chunk has its
  content, embedding and metadata in the row under its compound id unless a later chunk of
  the batch has the same compound id: that one overwrites it. If no step of the
  collaborators can fail, the call returns \<open>nil\<close>.
\<close>

theorem Store_all_or_nothing:
  "(fst (Store b committed docs) \<noteq> None \<longrightarrow> snd (Store b committed docs) = committed)
   \<and> (fst (Store b committed docs) = None)
       = (begin_ok b
          \<and> (\<exists>t. applyWrites b (batchChunks docs) committed = Some t \<and> commit_ok b t))
   \<and> (fst (Store b committed docs) = None \<longrightarrow>
        applyWrites b (batchChunks docs) committed = Some (snd (Store b committed docs))
        \<and> set (map row_id (snd (Store b committed docs)))
            = set (map row_id committed) \<union> set (chunkIds docs)
        \<and> (\<forall>k doc i chunk.
              k < length (batchChunks docs) \<and> batchChunks docs ! k = (doc, i, chunk)
              \<and> (\<forall>k'. k < k' \<and> k' < length (batchChunks docs)
                         \<longrightarrow> writeId (batchChunks docs ! k') \<noteq> compound_id doc i)
            \<longrightarrow> (\<exists>x \<in> set (snd (Store b committed docs)). \<exists>e.
                   CreateEmbedding b [sanitizeUTF8 chunk] = Some e
                   \<and> row_id x = compound_id doc i \<and> row_content x = sanitizeUTF8 chunk
                   \<and> row_embedding x = concat e
                   \<and> row_metadata x = Metadata (Document doc))))
   \<and> (begin_ok b \<and> (\<forall>texts. CreateEmbedding b texts \<noteq> None) \<and> (\<forall>tx r. exec_ok b tx r)
        \<and> (\<forall>tx. commit_ok b tx)
       \<longrightarrow> fst (Store b committed docs) = None)"
proof -
  have nil: "(fst (Store b committed docs) = None)
       = (begin_ok b
          \<and> (\<exists>t. applyWrites b (batchChunks docs) committed = Some t \<and> commit_ok b t))"
  proof
    assume "fst (Store b committed docs) = None"
    then have "Store b committed docs = (None, snd (Store b committed docs))"
      by (metis prod.collapse)
    then show "begin_ok b
          \<and> (\<exists>t. applyWrites b (batchChunks docs) committed = Some t \<and> commit_ok b t)"
      by (auto simp: Store_nil storeDocs_applyWrites)
  next
    assume "begin_ok b
          \<and> (\<exists>t. applyWrites b (batchChunks docs) committed = Some t \<and> commit_ok b t)"
    then obtain t where "Store b committed docs = (None, t)"
      by (auto simp: Store_nil storeDocs_applyWrites)
    then show "fst (Store b committed docs) = None"
      by simp
  qed
  have success: "applyWrites b (batchChunks docs) committed = Some (snd (Store b committed docs))
        \<and> set (map row_id (snd (Store b committed docs)))
            = set (map row_id committed) \<union> set (chunkIds docs)
        \<and> (\<forall>k doc i chunk.
              k < length (batchChunks docs) \<and> batchChunks docs ! k = (doc, i, chunk)
              \<and> (\<forall>k'. k < k' \<and> k' < length (batchChunks docs)
                         \<longrightarrow> writeId (batchChunks docs ! k') \<noteq> compound_id doc i)
            \<longrightarrow> (\<exists>x \<in> set (snd (Store b committed docs)). \<exists>e.
                   CreateEmbedding b [sanitizeUTF8 chunk] = Some e
                   \<and> row_id x = compound_id doc i \<and> row_content x = sanitizeUTF8 chunk
                   \<and> row_embedding x = concat e
                   \<and> row_metadata x = Metadata (Document doc)))"
    if "fst (Store b committed docs) = None"
  proof -
    have "Store b committed docs = (None, snd (Store b committed docs))"
      using that by (metis prod.collapse)
    then have run: "storeDocs b docs committed = Inr (snd (Store b committed docs))"
      by (simp add: Store_nil)
    then have writes: "applyWrites b (batchChunks docs) committed
                         = Some (snd (Store b committed docs))"
      by (simp add: storeDocs_applyWrites)
    have ids: "set (map row_id (snd (Store b committed docs)))
            = set (map row_id committed) \<union> set (chunkIds docs)"
      using storeDocs_ids[OF run] by blast
    show ?thesis
      using writes ids applyWrites_written[OF writes] by blast
  qed
  have total: "fst (Store b committed docs) = None"
    if ok: "begin_ok b \<and> (\<forall>texts. CreateEmbedding b texts \<noteq> None) \<and> (\<forall>tx r. exec_ok b tx r)
        \<and> (\<forall>tx. commit_ok b tx)"
  proof -
    obtain t where "storeDocs b docs committed = Inr t"
      using storeDocs_succeeds[of b docs committed] ok by blast
    then have "Store b committed docs = (None, t)"
      using ok by (simp add: Store_nil)
    then show ?thesis by simp
  qed
  show ?thesis
    using Store_error[of b committed docs] nil success total by blast
qed

text \<open>The theorem on a batch of one document with two chunks and an empty table: with
  collaborators that never fail both chunks are committed with their content, and with a
  database that refuses the second insert the call fails and the table stays empty.\<close>

theorem Store_all_or_nothing_witness:
  "fst (Store example_backend [] [example_processed]) = None
   \<and> applyWrites example_backend (batchChunks [example_processed]) []
       = Some (snd (Store example_backend [] [example_processed]))
   \<and> set (map row_id (snd (Store example_backend [] [example_processed])))
       = {''test1_0'', ''test1_1''}
   \<and> map row_content (snd (Store example_backend [] [example_processed]))
       = [''This is chunk 1'', ''This is chunk 2'']
   \<and> fst (Store example_failing_backend [] [example_processed]) = Some InsertFailed
   \<and> applyWrites example_failing_backend (batchChunks [example_processed]) [] = None
   \<and> snd (Store example_failing_backend [] [example_processed]) = []"
proof -
  have ids: "set (chunkIds [example_processed]) = {''test1_0'', ''test1_1''}"
    by code_simp
  note ok = Store_all_or_nothing[of example_backend "[]" "[example_processed]"]
  note ko = Store_all_or_nothing[of example_failing_backend "[]" "[example_processed]"]
  have a: "applyWrites example_backend (batchChunks [example_processed]) []
       = Some (snd (Store example_backend [] [example_processed]))"
    using ok example_Store_ok by blast
  have b: "set (map row_id (snd (Store example_backend [] [example_processed])))
       = {''test1_0'', ''test1_1''}"
    using ok example_Store_ok ids by simp
  have c: "snd (Store example_failing_backend [] [example_processed]) = []"
    using ko example_Store_fails by simp
  have "begin_ok example_failing_backend" "\<forall>t. commit_ok example_failing_backend t"
    by (simp_all add: example_failing_backend_def example_backend_def)
  then have d: "applyWrites example_failing_backend (batchChunks [example_processed]) [] = None"
    using ko example_Store_fails
    by (cases "applyWrites example_failing_backend (batchChunks [example_processed]) []") auto
  show ?thesis
    using a b c d example_Store_ok example_Store_contents example_Store_fails by simp
qed

text \<open>
  Claim C7 as stated fails on a batch of two documents with the same \<open>ID\<close>, as the crawler
  makes them: no step fails and the call returns \<open>nil\<close>, and the table holds one row, under
  \<open>_0\<close>, with the URL of the first document and the content of the second; the chunk of the
  first document is not in the table.
\<close>

theorem Store_same_id_counterexample:
  "fst (Store example_backend [] example_crawled) = None
   \<and> map row_id (snd (Store example_backend [] example_crawled)) = [''_0'']
   \<and> map row_url (snd (Store example_backend [] example_crawled)) = [''https://example.com'']
   \<and> map row_content (snd (Store example_backend [] example_crawled)) = [''second page'']"
  using example_crawled_Store by simp

subsection \<open>Storing a batch twice\<close>

text \<open>
  Claim C8. When a batch is stored twice and both calls succeed, the second call inserts no
  row: the ids of the table are the same, in the same order, and hold the compound id of
  every chunk; if the ids were pairwise different before, they still are. When the batch is
  one document, each of its chunks has its row under \<open><document_id>_<chunk_index>\<close> with the
  content, the embedding and the metadata that the second call has written.
\<close>

theorem Store_twice:
  assumes "Store b1 t0 docs = (None, t1)" and "Store b2 t1 docs = (None, t2)"
  shows "map row_id t2 = map row_id t1
         \<and> set (chunkIds docs) \<subseteq> set (map row_id t1)
         \<and> (distinct (map row_id t0) \<longrightarrow> distinct (map row_id t2))
         \<and> (\<forall>d. docs = [d] \<longrightarrow> (\<forall>i < length (Chunks d). \<exists>x \<in> set t2. \<exists>e.
                row_id x = compound_id d i
                \<and> CreateEmbedding b2 [sanitizeUTF8 (Chunks d ! i)] = Some e
                \<and> row_content x = sanitizeUTF8 (Chunks d ! i)
                \<and> row_embedding x = concat e
                \<and> row_metadata x = Metadata (Document d)))"
proof -
  have run1: "storeDocs b1 docs t0 = Inr t1" and run2: "storeDocs b2 docs t1 = Inr t2"
    using assms by (simp_all add: Store_nil)
  note A = storeDocs_ids[OF run1]
  note B = storeDocs_ids[OF run2]
  have present: "set (chunkIds docs) \<subseteq> set (map row_id t1)"
    using A by blast
  have same: "map row_id t2 = map row_id t1"
    using B present by blast
  have dist: "distinct (map row_id t2)" if "distinct (map row_id t0)"
    using that A B by blast
  have written: "\<exists>x \<in> set t2. \<exists>e. row_id x = compound_id d i
                \<and> CreateEmbedding b2 [sanitizeUTF8 (Chunks d ! i)] = Some e
                \<and> row_content x = sanitizeUTF8 (Chunks d ! i)
                \<and> row_embedding x = concat e
                \<and> row_metadata x = Metadata (Document d)"
    if "docs = [d]" "i < length (Chunks d)" for d i
  proof -
    have "storeChunks b2 d (sanitizeUTF8 (Title (Document d))) 0 (Chunks d) t1 = Inr t2"
      using run2 that(1) by (auto split: sum.splits)
    from storeChunks_written[OF this that(2)] show ?thesis by simp
  qed
  show ?thesis
    using same present dist written by blast
qed

text \<open>The theorem on the batch of one document with two chunks, stored twice into an
  empty table: two rows after the first call and the same two after the second.\<close>

theorem Store_twice_witness:
  "fst (Store example_backend [] [example_processed]) = None
   \<and> fst (Store example_backend (snd (Store example_backend [] [example_processed]))
            [example_processed]) = None
   \<and> map row_id (snd (Store example_backend (snd (Store example_backend [] [example_processed]))
                         [example_processed]))
       = [''test1_0'', ''test1_1'']
   \<and> distinct (map row_id (snd (Store example_backend
                 (snd (Store example_backend [] [example_processed])) [example_processed])))
   \<and> map row_content (snd (Store example_backend
            (snd (Store example_backend [] [example_processed])) [example_processed]))
       = [''This is chunk 1'', ''This is chunk 2'']"
proof -
  let ?t1 = "snd (Store example_backend [] [example_processed])"
  let ?t2 = "snd (Store example_backend ?t1 [example_processed])"
  have r1: "Store example_backend [] [example_processed] = (None, ?t1)"
    using example_Store_ok by (metis prod.collapse)
  have r2: "Store example_backend ?t1 [example_processed] = (None, ?t2)"
    using example_Store_again_ok by (metis prod.collapse)
  have same: "map row_id ?t2 = map row_id ?t1"
    using Store_twice[OF r1 r2] by blast
  have "distinct (map row_id ([] :: Row list)) \<longrightarrow> distinct (map row_id ?t2)"
    using Store_twice[OF r1 r2] by blast
  then have "distinct (map row_id ?t2)"
    by simp
  then show ?thesis
    using same example_Store_ok example_Store_again_ok example_Store_ids
      example_Store_again_contents by simp
qed

end
